theory Spec2Isabelle
  imports Complex_Main
begin

section \<open>Clock arithmetic\<close>

text \<open>
  A \<^verbatim>\<open>datetime\<close> is the number of hours elapsed since 00:00 of a reference Monday, an
  exact rational; \<^verbatim>\<open>timedelta(hours=h)\<close> is the rational \<open>h\<close> itself. Durations and
  totals are Python numbers; they are modelled as exact rationals, so binary floating
  point rounding and the microsecond resolution of \<^verbatim>\<open>datetime\<close> are not part of the model.
  Where the source subtracts or divides floats, the model subtracts or divides exactly.
  A calendar date is the index of its day, and Monday has \<^verbatim>\<open>weekday() == 0\<close>.
\<close>

type_synonym datetime = rat

definition date_of :: "datetime \<Rightarrow> int" where
  "date_of t = \<lfloor>t / 24\<rfloor>"

definition hour_of :: "datetime \<Rightarrow> nat" where
  "hour_of t = nat (\<lfloor>t\<rfloor> mod 24)"

definition minute_of :: "datetime \<Rightarrow> nat" where
  "minute_of t = nat (\<lfloor>t * 60\<rfloor> mod 60)"

definition weekday :: "datetime \<Rightarrow> int" where
  "weekday t = date_of t mod 7"

text \<open>
  \<^verbatim>\<open>t.replace(hour=h, minute=m)\<close> keeps the date and also the seconds and microseconds
  of \<open>t\<close>: only the two named fields are overwritten.
\<close>

definition replace_hour_minute :: "datetime \<Rightarrow> nat \<Rightarrow> nat \<Rightarrow> datetime" where
  "replace_hour_minute t h m =
     24 * of_int (date_of t) + of_nat h + of_nat m / 60 + (t - of_int \<lfloor>t * 60\<rfloor> / 60)"

text \<open>\<^verbatim>\<open>t.replace(hour=h, minute=m, second=0, microsecond=0)\<close>\<close>

definition replace_hour_minute_second :: "datetime \<Rightarrow> nat \<Rightarrow> nat \<Rightarrow> datetime" where
  "replace_hour_minute_second t h m = 24 * of_int (date_of t) + of_nat h + of_nat m / 60"

text \<open>The time of day, in hours since midnight.\<close>

definition tod :: "datetime \<Rightarrow> rat" where
  "tod t = t - 24 * of_int (date_of t)"

definition two_digits :: "nat \<Rightarrow> string" where
  "two_digits n = [''0123456789'' ! (n div 10), ''0123456789'' ! (n mod 10)]"

text \<open>\<^verbatim>\<open>t.strftime('%H:%M')\<close>\<close>

definition strftime_HM :: "datetime \<Rightarrow> string" where
  "strftime_HM t = two_digits (hour_of t) @ '':'' @ two_digits (minute_of t)"

section \<open>Day logs\<close>

datatype status = Driving | On_duty | Off_duty | Sleeper_berth

datatype code = OFF | D | ON | SB

record totals =
  driving :: rat
  on_duty :: rat
  off_duty :: rat
  sleeper :: rat

record event =
  ev_status :: status
  ev_start :: string
  ev_end :: string
  ev_duration :: rat
  ev_activity :: "string option"

record day_log =
  date :: int
  grid :: "code list"
  events :: "event list"
  totals :: totals

definition max_drive_hours :: rat where "max_drive_hours = 11"
definition max_on_duty_hours :: rat where "max_on_duty_hours = 14"
definition min_rest_hours :: rat where "min_rest_hours = 10"
definition max_cycle_hours :: rat where "max_cycle_hours = 70"
definition fuel_interval :: rat where "fuel_interval = 1000"
definition fuel_time :: rat where "fuel_time = 1 / 2"
definition pickup_dropoff_time :: rat where "pickup_dropoff_time = 1"

definition init_day_log :: "int \<Rightarrow> day_log" where
  "init_day_log d =
     \<lparr>date = d, grid = replicate 96 OFF, events = [],
      totals = \<lparr>driving = 0, on_duty = 0, off_duty = 0, sleeper = 0\<rparr>\<rparr>"

text \<open>\<^verbatim>\<open>self.log_sheets.append(day_log)\<close>: the list held by the generator is passed and returned.\<close>

definition finalize_day :: "day_log list \<Rightarrow> day_log \<Rightarrow> day_log list" where
  "finalize_day log_sheets day_log = log_sheets @ [day_log]"

fun status_code :: "status \<Rightarrow> code" where
  "status_code Driving = D"
| "status_code On_duty = ON"
| "status_code Off_duty = OFF"
| "status_code Sleeper_berth = SB"

text \<open>\<^verbatim>\<open>day_log['totals'][total_key] += duration_hours\<close>, with the key chosen from the status.\<close>

fun add_total :: "totals \<Rightarrow> status \<Rightarrow> rat \<Rightarrow> totals" where
  "add_total ts Sleeper_berth h = ts\<lparr>sleeper := sleeper ts + h\<rparr>"
| "add_total ts Driving h = ts\<lparr>driving := driving ts + h\<rparr>"
| "add_total ts On_duty h = ts\<lparr>on_duty := on_duty ts + h\<rparr>"
| "add_total ts Off_duty h = ts\<lparr>off_duty := off_duty ts + h\<rparr>"

text \<open>
  \<^verbatim>\<open>for i in range(start_idx, min(end_idx, 96)): day_log['grid'][i] = status_code\<close>.
  Every grid is made by \<open>init_day_log\<close> with 96 slots and the loop stays below 96, so
  the write is always in range.
\<close>

definition paint :: "code list \<Rightarrow> nat \<Rightarrow> nat \<Rightarrow> code \<Rightarrow> code list" where
  "paint g start_idx end_idx c = fold (\<lambda>i g'. g'[i := c]) [start_idx ..< min end_idx 96] g"

definition slot_index :: "datetime \<Rightarrow> nat" where
  "slot_index t = nat \<lfloor>(of_nat (hour_of t * 4) :: rat) + of_nat (minute_of t) / 15\<rfloor>"

definition make_event :: "status \<Rightarrow> datetime \<Rightarrow> datetime \<Rightarrow> rat \<Rightarrow> string option \<Rightarrow> event" where
  "make_event st start_time end_time duration_hours activity =
     \<lparr>ev_status = st, ev_start = strftime_HM start_time, ev_end = strftime_HM end_time,
      ev_duration = duration_hours,
      ev_activity = (case activity of None \<Rightarrow> None
                     | Some a \<Rightarrow> if a = [] then None else Some a)\<rparr>"

definition add_event ::
  "day_log list \<Rightarrow> day_log \<Rightarrow> status \<Rightarrow> datetime \<Rightarrow> rat \<Rightarrow> string option
     \<Rightarrow> day_log list \<times> datetime \<times> day_log" where
  "add_event log_sheets day_log st start_time duration_hours activity =
     (let end_time = start_time + duration_hours;
          (log_sheets, day_log, start_time, end_time) =
            (if date_of end_time > date_of start_time
             then (let start_time' = replace_hour_minute end_time 8 0
                   in (finalize_day log_sheets day_log, init_day_log (date_of end_time),
                       start_time', start_time' + duration_hours))
             else (log_sheets, day_log, start_time, end_time));
          ev = make_event st start_time end_time duration_hours activity;
          start_idx = slot_index start_time;
          end_idx = slot_index end_time
      in (log_sheets, end_time,
          day_log\<lparr>grid := paint (grid day_log) start_idx end_idx (status_code st),
                  events := events day_log @ [ev],
                  totals := add_total (totals day_log) st duration_hours\<rparr>))"

section \<open>Driving-time consumption\<close>

definition available_hours :: "day_log \<Rightarrow> rat \<Rightarrow> rat \<Rightarrow> rat" where
  "available_hours day_log remaining_cycle drive_time =
     min (min (min (max_drive_hours - driving (totals day_log))
                   (max_on_duty_hours - on_duty (totals day_log)))
              remaining_cycle)
         drive_time"

text \<open>
  The variables of the driving loop, as one tuple
  (\<open>log_sheets\<close>, \<open>day_log\<close>, \<open>start_time\<close>, \<open>drive_time\<close>, \<open>remaining_cycle\<close>).
\<close>

type_synonym loop_state = "day_log list \<times> day_log \<times> datetime \<times> rat \<times> rat"

definition st_log_sheets :: "loop_state \<Rightarrow> day_log list" where
  "st_log_sheets s = fst s"

definition st_day_log :: "loop_state \<Rightarrow> day_log" where
  "st_day_log s = fst (snd s)"


definition st_drive_time :: "loop_state \<Rightarrow> rat" where
  "st_drive_time s = fst (snd (snd (snd s)))"


text \<open>A day log on which nothing has been driven and no on-duty time is booked.\<close>

definition fresh :: "day_log \<Rightarrow> bool" where
  "fresh dl \<longleftrightarrow> driving (totals dl) = 0 \<and> on_duty (totals dl) = 0"

text \<open>
  One pass through the body of the \<^verbatim>\<open>while drive_time > 0\<close> loop of
  \<^verbatim>\<open>_add_driving\<close>, on the loop variables
  (\<open>log_sheets\<close>, \<open>day_log\<close>, \<open>start_time\<close>, \<open>drive_time\<close>, \<open>remaining_cycle\<close>).
\<close>

definition add_driving_iter :: "loop_state \<Rightarrow> loop_state" where
  "add_driving_iter s =
     (case s of (log_sheets, day_log, start_time, drive_time, remaining_cycle) \<Rightarrow>
        let available = available_hours day_log remaining_cycle drive_time
        in if available \<le> 0
           then (let log_sheets = finalize_day log_sheets day_log;
                     start_time = replace_hour_minute start_time 8 0 + 24;
                     day_log = init_day_log (date_of start_time);
                     (log_sheets, start_time, day_log) =
                        add_event log_sheets day_log Sleeper_berth start_time min_rest_hours None;
                     remaining_cycle =
                        (if weekday start_time = 0 then max_cycle_hours else remaining_cycle)
                 in (log_sheets, day_log, start_time, drive_time, remaining_cycle))
           else (let (log_sheets, start_time, day_log) =
                        add_event log_sheets day_log Driving start_time available None
                 in (log_sheets, day_log, start_time,
                     drive_time - available, remaining_cycle - available)))"

function (domintros) add_driving_loop :: "loop_state \<Rightarrow> loop_state" where
  "add_driving_loop (log_sheets, day_log, start_time, drive_time, remaining_cycle) =
     (if drive_time > 0
      then add_driving_loop
             (add_driving_iter (log_sheets, day_log, start_time, drive_time, remaining_cycle))
      else (log_sheets, day_log, start_time, drive_time, remaining_cycle))"
  by pat_completeness auto

text \<open>
  \<^verbatim>\<open>_add_driving(day_log, start_time, drive_time, remaining_cycle)\<close> runs the loop and
  returns \<^verbatim>\<open>start_time, day_log, remaining_cycle\<close>; the first component of the result
  is \<^verbatim>\<open>self.log_sheets\<close> after the call.
\<close>

definition add_driving ::
  "day_log list \<Rightarrow> day_log \<Rightarrow> datetime \<Rightarrow> rat \<Rightarrow> rat
     \<Rightarrow> day_log list \<times> datetime \<times> day_log \<times> rat" where
  "add_driving log_sheets day_log start_time drive_time remaining_cycle =
     (case add_driving_loop (log_sheets, day_log, start_time, drive_time, remaining_cycle) of
        (log_sheets, day_log, start_time, drive_time, remaining_cycle) \<Rightarrow>
          (log_sheets, start_time, day_log, remaining_cycle))"

section \<open>Full-trip generation\<close>

record route_leg =
  leg_from :: string
  leg_to :: string
  distance :: rat
  duration :: rat
  geometry :: string

text \<open>
  \<^verbatim>\<open>route_details['legs']\<close> is only ever built by \<^verbatim>\<open>calculate_route\<close>, as a list of
  exactly two legs; it is a pair here, so \<^verbatim>\<open>legs[0]\<close> and \<^verbatim>\<open>legs[1]\<close> always exist.
\<close>

record route_details =
  legs :: "route_leg \<times> route_leg"
  total_distance :: rat
  total_duration :: rat

text \<open>Python's \<^verbatim>\<open>int(x)\<close> on a number truncates towards zero.\<close>

definition py_int :: "rat \<Rightarrow> int" where
  "py_int x = (if 0 \<le> x then \<lfloor>x\<rfloor> else \<lceil>x\<rceil>)"

text \<open>\<^verbatim>\<open>fuel_stops = max(0, int(total_distance / self.fuel_interval))\<close>\<close>

definition fuel_stops :: "route_details \<Rightarrow> nat" where
  "fuel_stops rd = nat (max 0 (py_int (total_distance rd / fuel_interval)))"

text \<open>\<^verbatim>\<open>time_per_segment = leg2_time / (fuel_stops + 1) if fuel_stops else leg2_time\<close>\<close>

definition time_per_segment :: "route_details \<Rightarrow> rat" where
  "time_per_segment rd =
     (let leg2_time = duration (snd (legs rd))
      in if fuel_stops rd \<noteq> 0 then leg2_time / of_nat (fuel_stops rd + 1) else leg2_time)"

text \<open>
  The loop \<^verbatim>\<open>for i in range(fuel_stops + 1)\<close> works on
  (\<open>log_sheets\<close>, \<open>current_time\<close>, \<open>day_log\<close>, \<open>remaining_cycle\<close>).
  Its first statement consumes one segment as driving; its second, under \<^verbatim>\<open>if i < fuel_stops\<close>,
  books the fuel stop.
\<close>

type_synonym trip_state = "day_log list \<times> datetime \<times> day_log \<times> rat"

definition drive_segment :: "rat \<Rightarrow> trip_state \<Rightarrow> trip_state" where
  "drive_segment segment_time s =
     (case s of (log_sheets, current_time, day_log, remaining_cycle) \<Rightarrow>
        add_driving log_sheets day_log current_time segment_time remaining_cycle)"

definition fueling_stop :: "trip_state \<Rightarrow> trip_state" where
  "fueling_stop s =
     (case s of (log_sheets, current_time, day_log, remaining_cycle) \<Rightarrow>
        let (log_sheets, current_time, day_log) =
              add_event log_sheets day_log On_duty current_time fuel_time (Some ''Fueling'')
        in (log_sheets, current_time, day_log, remaining_cycle))"

definition segment_step :: "nat \<Rightarrow> rat \<Rightarrow> nat \<Rightarrow> trip_state \<Rightarrow> trip_state" where
  "segment_step n_stops segment_time i s =
     (let s = drive_segment segment_time s
      in if i < n_stops then fueling_stop s else s)"

text \<open>
  Lines 99 to 123 of \<^verbatim>\<open>generate_log_sheets\<close>: the simulation on a route that is present.
  \<open>now\<close> is \<^verbatim>\<open>datetime.now()\<close>, \<open>log_sheets\<close> is \<^verbatim>\<open>self.log_sheets\<close> on entry
  (empty for a new generator); the result is \<^verbatim>\<open>self.log_sheets\<close> on return.
\<close>

definition generate_from_route ::
  "datetime \<Rightarrow> route_details \<Rightarrow> rat \<Rightarrow> day_log list \<Rightarrow> day_log list" where
  "generate_from_route now rd cycle_used log_sheets =
     (let current_time = replace_hour_minute_second now 8 0;
          remaining_cycle = max_cycle_hours - cycle_used;
          day_log = init_day_log (date_of current_time);
          (log_sheets, current_time, day_log) =
             add_event log_sheets day_log On_duty current_time pickup_dropoff_time (Some ''Loading'');
          leg1_time = duration (fst (legs rd));
          (log_sheets, current_time, day_log, remaining_cycle) =
             add_driving log_sheets day_log current_time leg1_time remaining_cycle;
          (log_sheets, current_time, day_log, remaining_cycle) =
             fold (segment_step (fuel_stops rd) (time_per_segment rd)) [0 ..< fuel_stops rd + 1]
               (log_sheets, current_time, day_log, remaining_cycle);
          (log_sheets, current_time, day_log) =
             add_event log_sheets day_log On_duty current_time pickup_dropoff_time (Some ''Unloading'')
      in finalize_day log_sheets day_log)"

section \<open>Route calculation and the trip-planning view\<close>

record trip_data =
  current_location :: string
  pickup_location :: string
  dropoff_location :: string
  current_cycle_used :: rat

record generator =
  self_current_location :: string
  self_pickup_location :: string
  self_dropoff_location :: string
  self_current_cycle_used :: rat
  self_route_details :: "route_details option"
  self_log_sheets :: "day_log list"

definition init_generator :: "trip_data \<Rightarrow> generator" where
  "init_generator td =
     \<lparr>self_current_location = current_location td, self_pickup_location = pickup_location td,
      self_dropoff_location = dropoff_location td, self_current_cycle_used = current_cycle_used td,
      self_route_details = None, self_log_sheets = []\<rparr>"

datatype error = ValueError string

type_synonym coords = "rat list"

text \<open>
  The routing provider is reached over the network; its two operations are parameters:
  \<open>get_coordinates\<close> returns the coordinate list or \<open>None\<close>, \<open>get_route_leg\<close> returns
  the measured leg or \<open>None\<close>, as the source's wrappers do after catching every exception.
\<close>

record leg_result =
  res_distance :: rat
  res_duration :: rat
  res_geometry :: string

text \<open>Truth value of a geocoding result in \<^verbatim>\<open>all(coords.values())\<close>.\<close>

definition truthy :: "coords option \<Rightarrow> bool" where
  "truthy c = (case c of None \<Rightarrow> False | Some xs \<Rightarrow> xs \<noteq> [])"

definition calculate_route ::
  "(string \<Rightarrow> coords option) \<Rightarrow> (coords \<Rightarrow> coords \<Rightarrow> leg_result option) \<Rightarrow> generator
     \<Rightarrow> error + generator \<times> route_details" where
  "calculate_route get_coordinates get_route_leg self =
     (case (get_coordinates (self_current_location self),
            get_coordinates (self_pickup_location self),
            get_coordinates (self_dropoff_location self)) of
        (Some current, Some pickup, Some dropoff) \<Rightarrow>
          if \<not> (truthy (Some current) \<and> truthy (Some pickup) \<and> truthy (Some dropoff))
          then Inl (ValueError ''Failed to geocode one or more locations'')
          else (case (get_route_leg current pickup, get_route_leg pickup dropoff) of
                  (Some leg1, Some leg2) \<Rightarrow>
                    let rd = \<lparr>legs =
                                (\<lparr>leg_from = self_current_location self,
                                  leg_to = self_pickup_location self,
                                  distance = res_distance leg1, duration = res_duration leg1,
                                  geometry = res_geometry leg1\<rparr>,
                                 \<lparr>leg_from = self_pickup_location self,
                                  leg_to = self_dropoff_location self,
                                  distance = res_distance leg2, duration = res_duration leg2,
                                  geometry = res_geometry leg2\<rparr>),
                              total_distance = res_distance leg1 + res_distance leg2,
                              total_duration = res_duration leg1 + res_duration leg2\<rparr>
                    in Inr (self\<lparr>self_route_details := Some rd\<rparr>, rd)
                | _ \<Rightarrow> Inl (ValueError ''Failed to calculate route''))
      | _ \<Rightarrow> Inl (ValueError ''Failed to geocode one or more locations''))"

text \<open>
  \<^verbatim>\<open>generate_log_sheets\<close>: the result is the generator after the call and the returned
  dictionary \<^verbatim>\<open>{'route_details': ..., 'log_sheets': ...}\<close>, or the exception raised.
\<close>

definition generate_log_sheets ::
  "(string \<Rightarrow> coords option) \<Rightarrow> (coords \<Rightarrow> coords \<Rightarrow> leg_result option) \<Rightarrow> datetime
     \<Rightarrow> generator \<Rightarrow> error + generator \<times> route_details \<times> day_log list" where
  "generate_log_sheets get_coordinates get_route_leg now self =
     (case (case self_route_details self of
              None \<Rightarrow> calculate_route get_coordinates get_route_leg self
            | Some rd \<Rightarrow> Inr (self, rd)) of
        Inl e \<Rightarrow> Inl e
      | Inr (self, rd) \<Rightarrow>
          let sheets = generate_from_route now rd (self_current_cycle_used self)
                         (self_log_sheets self)
          in Inr (self\<lparr>self_log_sheets := sheets\<rparr>, rd, sheets))"

text \<open>
  The stored tables. A \<^verbatim>\<open>Trip\<close> row holds the validated input; a \<^verbatim>\<open>LogSheet\<close> row holds
  the index of its trip, the date and the day log. The creation timestamp of a trip is
  set by the storage layer and is left out.
\<close>

record database =
  trips :: "trip_data list"
  log_sheet_rows :: "(nat \<times> int \<times> day_log) list"

datatype 'e response =
    Response_201 route_details "day_log list"
  | Response_400_invalid 'e
  | Response_400_error string

text \<open>
  \<^verbatim>\<open>PlanTripView.post\<close>. The serializer of the web framework is a parameter: it returns
  the validation errors or the validated data. \<^verbatim>\<open>except Exception as e\<close> turns the
  exception into a response carrying \<^verbatim>\<open>str(e)\<close>.
\<close>

definition post ::
  "('q \<Rightarrow> 'e + trip_data) \<Rightarrow> (string \<Rightarrow> coords option)
     \<Rightarrow> (coords \<Rightarrow> coords \<Rightarrow> leg_result option) \<Rightarrow> datetime \<Rightarrow> database \<Rightarrow> 'q
     \<Rightarrow> database \<times> 'e response" where
  "post serializer get_coordinates get_route_leg now db request =
     (case serializer request of
        Inl errors \<Rightarrow> (db, Response_400_invalid errors)
      | Inr validated_data \<Rightarrow>
          (case generate_log_sheets get_coordinates get_route_leg now
                  (init_generator validated_data) of
             Inl (ValueError msg) \<Rightarrow> (db, Response_400_error msg)
           | Inr (generator, rd, sheets) \<Rightarrow>
               let trip = length (trips db);
                   db = db\<lparr>trips := trips db @ [validated_data]\<rparr>;
                   db = fold (\<lambda>log db'. db'\<lparr>log_sheet_rows :=
                                 log_sheet_rows db' @ [(trip, date log, log)]\<rparr>) sheets db
               in (db, Response_201 rd sheets)))"

section \<open>Quantities read off the log sheets\<close>

text \<open>All event records of a list of day logs, in order.\<close>

definition all_events :: "day_log list \<Rightarrow> event list" where
  "all_events sheets = concat (map events sheets)"

text \<open>The on-duty hours booked on a list of day logs, added up.\<close>

definition on_duty_sum :: "day_log list \<Rightarrow> rat" where
  "on_duty_sum sheets = sum_list (map (\<lambda>dl. on_duty (totals dl)) sheets)"

text \<open>
  The finished day logs and the one under construction keep the daily driving limit, and
  the on-duty hours booked on all of them together stay within \<open>B\<close>.
\<close>

definition within_budget :: "day_log list \<Rightarrow> day_log \<Rightarrow> rat \<Rightarrow> bool" where
  "within_budget sheets dl B \<longleftrightarrow>
     list_all (\<lambda>x. 0 \<le> driving (totals x) \<and> driving (totals x) \<le> 11 \<and> 0 \<le> on_duty (totals x))
       (sheets @ [dl])
     \<and> on_duty_sum (sheets @ [dl]) \<le> B"

text \<open>
  The log sheets \<open>sheets'\<close> with the day log \<open>dl'\<close> under construction continue
  \<open>sheets\<close> with \<open>dl\<close>: no finished sheet is lost or changed, and the event records
  \<open>es\<close> are the ones added.
\<close>

definition extends_by ::
  "day_log list \<Rightarrow> day_log \<Rightarrow> day_log list \<Rightarrow> day_log \<Rightarrow> event list \<Rightarrow> bool" where
  "extends_by sheets dl sheets' dl' es \<longleftrightarrow>
     (\<exists>ys. sheets' = sheets @ ys)
     \<and> all_events (sheets' @ [dl']) = all_events (sheets @ [dl]) @ es"

text \<open>The events of a trip state: those of its log sheets and of its current day log.\<close>

definition trip_events :: "trip_state \<Rightarrow> event list" where
  "trip_events s = (case s of (log_sheets, current_time, day_log, remaining_cycle) \<Rightarrow>
                      all_events (log_sheets @ [day_log]))"

section \<open>Facts about the clock\<close>

lemma date_of_shift: "0 \<le> x \<Longrightarrow> x < 24 \<Longrightarrow> date_of (24 * of_int k + x) = k"
  unfolding date_of_def by (rule floor_unique) (simp_all add: field_simps)

lemma tod_bounds: "0 \<le> tod t" "tod t < 24"
  unfolding tod_def date_of_def by linarith+

lemma sub_minute_bounds:
  "0 \<le> t - of_int \<lfloor>t * 60\<rfloor> / 60" "t - of_int \<lfloor>t * 60\<rfloor> / 60 < 1 / 60"
  by linarith+

lemma replace_8_0: 
  "\<exists>f. 0 \<le> f \<and> f < 1 / 60 \<and> replace_hour_minute t 8 0 = 24 * of_int (date_of t) + 8 + f"
  unfolding replace_hour_minute_def 
  using sub_minute_bounds[of t] by (intro exI[of _ "t - of_int \<lfloor>t * 60\<rfloor> / 60"]) simp

lemma date_of_replace_8_0: "date_of (replace_hour_minute t 8 0) = date_of t"
proof -
  obtain f where f: "0 \<le> f" "f < 1 / 60" "replace_hour_minute t 8 0 = 24 * of_int (date_of t) + 8 + f"
    using replace_8_0 by blast
  have "date_of (24 * of_int (date_of t) + (8 + f)) = date_of t"
    by (rule date_of_shift) (use f in auto)
  then show ?thesis using f by (simp add: add.assoc)
qed

lemma date_of_plus_24: "date_of (t + 24) = date_of t + 1"
  unfolding date_of_def by (simp add: add_divide_distrib)

lemma tod_replace_8_0: "8 \<le> tod (replace_hour_minute t 8 0)" "tod (replace_hour_minute t 8 0) < 8 + 1/60"
  using replace_8_0[of t] unfolding tod_def date_of_replace_8_0 by auto

lemma date_of_same: "0 \<le> h \<Longrightarrow> tod t + h < 24 \<Longrightarrow> date_of (t + h) = date_of t"
proof -
  assume h: "0 \<le> h" "tod t + h < 24"
  have "date_of (24 * of_int (date_of t) + (tod t + h)) = date_of t"
    by (rule date_of_shift) (use h tod_bounds[of t] in auto)
  then show ?thesis by (simp add: tod_def)
qed

lemma tod_plus_le: "0 \<le> h \<Longrightarrow> tod (t + h) \<le> tod t + h"
proof -
  assume "0 \<le> h"
  then have "date_of t \<le> date_of (t + h)" unfolding date_of_def by (intro floor_mono) simp
  then have "(of_int (date_of t)::rat) \<le> of_int (date_of (t + h))" by simp
  then show ?thesis unfolding tod_def by linarith
qed

section \<open>Events and single iterations\<close>

lemma add_event_cross:
  "date_of t < date_of (t + h) \<Longrightarrow>
   add_event ls dl st t h a =
     (ls @ [dl], replace_hour_minute (t + h) 8 0 + h,
      (init_day_log (date_of (t + h)))
        \<lparr>grid := paint (replicate 96 OFF) (slot_index (replace_hour_minute (t + h) 8 0))
                   (slot_index (replace_hour_minute (t + h) 8 0 + h)) (status_code st),
         events := [make_event st (replace_hour_minute (t + h) 8 0)
                      (replace_hour_minute (t + h) 8 0 + h) h a],
         totals := add_total \<lparr>driving = 0, on_duty = 0, off_duty = 0, sleeper = 0\<rparr> st h\<rparr>)"
  by (simp add: add_event_def Let_def finalize_day_def init_day_log_def)

lemma add_event_same:
  "\<not> date_of t < date_of (t + h) \<Longrightarrow>
   add_event ls dl st t h a =
     (ls, t + h,
      dl\<lparr>grid := paint (grid dl) (slot_index t) (slot_index (t + h)) (status_code st),
         events := events dl @ [make_event st t (t + h) h a],
         totals := add_total (totals dl) st h\<rparr>)"
  by (simp add: add_event_def Let_def)

lemma rest_clock:
  "date_of (replace_hour_minute t 8 0 + 24) = date_of t + 1"
  "date_of (replace_hour_minute t 8 0 + 24 + 10) = date_of t + 1"
proof -
  show "date_of (replace_hour_minute t 8 0 + 24) = date_of t + 1"
    by (simp add: date_of_plus_24 date_of_replace_8_0)
  have "date_of (replace_hour_minute t 8 0 + 10) = date_of (replace_hour_minute t 8 0)"
    by (rule date_of_same) (use tod_replace_8_0[of t] in auto)
  then have "date_of (replace_hour_minute t 8 0 + 10 + 24) = date_of t + 1"
    by (simp only: date_of_plus_24 date_of_replace_8_0)
  then show "date_of (replace_hour_minute t 8 0 + 24 + 10) = date_of t + 1"
    by (simp add: add.commute add.left_commute)
qed

lemma rest_event:
  "add_event ls dl Sleeper_berth (replace_hour_minute t 8 0 + 24) min_rest_hours None =
     (ls, replace_hour_minute t 8 0 + 24 + 10,
      dl\<lparr>grid := paint (grid dl) (slot_index (replace_hour_minute t 8 0 + 24))
                  (slot_index (replace_hour_minute t 8 0 + 24 + 10)) SB,
         events := events dl @ [make_event Sleeper_berth (replace_hour_minute t 8 0 + 24)
                      (replace_hour_minute t 8 0 + 24 + 10) 10 None],
         totals := (totals dl)\<lparr>sleeper := sleeper (totals dl) + 10\<rparr>\<rparr>)"
proof -
  have "\<not> date_of (replace_hour_minute t 8 0 + 24)
          < date_of (replace_hour_minute t 8 0 + 24 + 10)"
    using rest_clock[of t] by simp
  from add_event_same[OF this] show ?thesis
    by (simp only: min_rest_hours_def status_code.simps add_total.simps)
qed

lemma iter_rest:
  assumes "available_hours dl rc dt \<le> 0"
  shows "\<exists>dl' t'. add_driving_iter (ls, dl, t, dt, rc) =
            (ls @ [dl], dl', t', dt, if (date_of t + 1) mod 7 = 0 then 70 else rc)
          \<and> driving (totals dl') = 0 \<and> on_duty (totals dl') = 0 \<and> date_of t' = date_of t + 1"
proof -
  have "date_of (34 + replace_hour_minute t 8 0) = date_of t + 1"
    using rest_clock(2)[of t] by (simp add: add.commute)
  then show ?thesis using assms
    by (simp add: add_driving_iter_def Let_def rest_event rest_clock
      finalize_day_def init_day_log_def weekday_def max_cycle_hours_def)
qed

lemma iter_drive:
  assumes "\<not> available_hours dl rc dt \<le> 0"
  shows "\<exists>ls' dl' t'. add_driving_iter (ls, dl, t, dt, rc) =
            (ls', dl', t', dt - available_hours dl rc dt, rc - available_hours dl rc dt)
          \<and> (date_of t < date_of (t + available_hours dl rc dt)
               \<and> driving (totals dl') = available_hours dl rc dt \<and> on_duty (totals dl') = 0
               \<and> tod t' \<le> 9 + available_hours dl rc dt
             \<or> date_of (t + available_hours dl rc dt) = date_of t \<and>
               driving (totals dl') = driving (totals dl) + available_hours dl rc dt
               \<and> on_duty (totals dl') = on_duty (totals dl) \<and> t' = t + available_hours dl rc dt)"
proof (cases "date_of t < date_of (t + available_hours dl rc dt)")
  case True
  have "tod (replace_hour_minute (t + available_hours dl rc dt) 8 0 + available_hours dl rc dt)
        \<le> tod (replace_hour_minute (t + available_hours dl rc dt) 8 0) + available_hours dl rc dt"
    by (rule tod_plus_le) (use assms in simp)
  then have "tod (replace_hour_minute (t + available_hours dl rc dt) 8 0 + available_hours dl rc dt)
        \<le> 9 + available_hours dl rc dt"
    using tod_replace_8_0[of "t + available_hours dl rc dt"] by simp
  then show ?thesis using True assms
    by (simp add: add_driving_iter_def Let_def add_event_cross)
next
  case False
  have "date_of t \<le> date_of (t + available_hours dl rc dt)"
    unfolding date_of_def using assms by (intro floor_mono) simp
  with False have "date_of (t + available_hours dl rc dt) = date_of t" by simp
  then show ?thesis using False assms
    by (simp add: add_driving_iter_def Let_def add_event_same)
qed

section \<open>Termination of the driving loop\<close>

text \<open>
  With exact arithmetic the loop ends from every state, which makes \<open>add_driving_loop\<close>
  a total function. After a rest the day log is fresh, and from a fresh day
  log each pass either finishes, drives a full 11 hours, or uses up the cycle and then
  rests until the next Monday resets it; before the first rest, at most finitely many
  drives fit into the daily budgets.
\<close>

lemma monday_ex: "\<exists>k::nat. ((d::int) + 1 + int k) mod 7 = 0"
proof
  have "0 \<le> (- d - 1) mod 7" by simp
  then have "int (nat ((- d - 1) mod 7)) = (- d - 1) mod 7" by simp
  moreover have "(d + 1 + (- d - 1) mod 7) mod 7 = 0" by presburger
  ultimately show "(d + 1 + int (nat ((- d - 1) mod 7))) mod 7 = 0" by simp
qed

lemma dom_exit: "dt \<le> 0 \<Longrightarrow> add_driving_loop_dom (ls, dl, t, dt, rc)"
  by (rule add_driving_loop.domintros) simp

lemma dom_step:
  "(0 < dt \<Longrightarrow> add_driving_loop_dom (add_driving_iter (ls, dl, t, dt, rc)))
   \<Longrightarrow> add_driving_loop_dom (ls, dl, t, dt, rc)"
  by (rule add_driving_loop.domintros)

lemma dom_rest:
  assumes av: "available_hours dl rc dt \<le> 0"
    and nxt: "\<And>ls' dl' t'. fresh dl' \<Longrightarrow> date_of t' = date_of t + 1 \<Longrightarrow>
             add_driving_loop_dom (ls', dl', t', dt, if (date_of t + 1) mod 7 = 0 then 70 else rc)"
  shows "add_driving_loop_dom (ls, dl, t, dt, rc)"
proof (rule dom_step)
  from iter_rest[OF av, of ls t] obtain dl' t' where
    "add_driving_iter (ls, dl, t, dt, rc) =
       (ls @ [dl], dl', t', dt, if (date_of t + 1) mod 7 = 0 then 70 else rc)"
    "fresh dl'" "date_of t' = date_of t + 1"
    unfolding fresh_def by blast
  then show "add_driving_loop_dom (add_driving_iter (ls, dl, t, dt, rc))"
    using nxt by simp
qed

lemma available_fresh:
  "fresh dl \<Longrightarrow> available_hours dl rc dt = min (min 11 rc) dt"
  by (simp add: available_hours_def fresh_def max_drive_hours_def max_on_duty_hours_def)

lemma available_le:
  "available_hours dl rc dt \<le> 11 - driving (totals dl)"
  "available_hours dl rc dt \<le> 14 - on_duty (totals dl)"
  "available_hours dl rc dt \<le> rc"
  "available_hours dl rc dt \<le> dt"
  by (simp_all add: available_hours_def max_drive_hours_def max_on_duty_hours_def)

lemma fresh_drive:
  assumes "fresh dl" "\<not> available_hours dl rc dt \<le> 0"
  shows "\<exists>ls' dl' t'. add_driving_iter (ls, dl, t, dt, rc) =
            (ls', dl', t', dt - min (min 11 rc) dt, rc - min (min 11 rc) dt)
          \<and> driving (totals dl') = min (min 11 rc) dt \<and> on_duty (totals dl') = 0"
  using iter_drive[OF assms(2), of ls t] assms(1)
  by (auto simp: available_fresh) (auto simp: fresh_def)

lemma F_step:
  assumes IH: "\<And>ls dl t dt rc. fresh dl \<Longrightarrow> dt \<le> B \<Longrightarrow> add_driving_loop_dom (ls, dl, t, dt, rc)"
    and fr: "fresh dl" and dt: "dt \<le> B + 11" and rc: "11 \<le> rc"
  shows "add_driving_loop_dom (ls, dl, t, dt, rc)"
proof (rule dom_step)
  assume pos: "0 < dt"
  then have "\<not> available_hours dl rc dt \<le> 0"
    using fr rc by (simp add: available_fresh)
  from fresh_drive[OF fr this, of ls t] obtain ls' dl' t' where
    it: "add_driving_iter (ls, dl, t, dt, rc) =
           (ls', dl', t', dt - min (min 11 rc) dt, rc - min (min 11 rc) dt)"
    and d': "driving (totals dl') = min (min 11 rc) dt" by blast
  show "add_driving_loop_dom (add_driving_iter (ls, dl, t, dt, rc))"
  proof (cases "dt \<le> 11")
    case True
    then have "min (min 11 rc) dt = dt" using rc by simp
    then show ?thesis unfolding it by (intro dom_exit) simp
  next
    case False
    then have m: "min (min 11 rc) dt = 11" using rc by simp
    have "available_hours dl' (rc - 11) (dt - 11) \<le> 0"
      using available_le(1)[of dl' "rc - 11" "dt - 11"] d' m by simp
    then have "add_driving_loop_dom (ls', dl', t', dt - 11, rc - 11)"
      by (rule dom_rest) (rule IH, use dt in simp_all)
    then show ?thesis unfolding it m .
  qed
qed

lemma W_step:
  assumes F: "\<And>ls dl t rc. fresh dl \<Longrightarrow> 11 \<le> rc \<Longrightarrow> add_driving_loop_dom (ls, dl, t, dt, rc)"
  shows "fresh dl \<Longrightarrow> rc \<le> 0 \<Longrightarrow> (date_of t + 1 + int k) mod 7 = 0
         \<Longrightarrow> add_driving_loop_dom (ls, dl, t, dt, rc)"
proof (induction k arbitrary: ls dl t)
  case 0
  from "0.prems"(3) have monday: "(date_of t + 1) mod 7 = 0" by simp
  have "available_hours dl rc dt \<le> 0"
    using available_le(3)[of dl rc dt] 0 by simp
  then show ?case
    by (rule dom_rest) (simp add: monday F)
next
  case (Suc k)
  have av: "available_hours dl rc dt \<le> 0"
    using available_le(3)[of dl rc dt] Suc by simp
  show ?case
  proof (rule dom_rest[OF av])
    fix ls' dl' t'
    assume fr: "fresh dl'" and d: "date_of t' = date_of t + 1"
    show "add_driving_loop_dom (ls', dl', t', dt, if (date_of t + 1) mod 7 = 0 then 70 else rc)"
    proof (cases "(date_of t + 1) mod 7 = 0")
      case True
      then show ?thesis using F[OF fr, of 70] by simp
    next
      case False
      have "(date_of t' + 1 + int k) mod 7 = 0"
        using Suc.prems(3) d by (simp add: algebra_simps)
      from Suc.IH[OF fr Suc.prems(2) this] show ?thesis using False by simp
    qed
  qed
qed

lemma M_step:
  assumes F: "\<And>ls dl t dt rc. fresh dl \<Longrightarrow> dt \<le> B \<Longrightarrow> 11 \<le> rc \<Longrightarrow> add_driving_loop_dom (ls, dl, t, dt, rc)"
    and W: "\<And>ls dl t dt rc. fresh dl \<Longrightarrow> dt \<le> B \<Longrightarrow> rc \<le> 0 \<Longrightarrow> add_driving_loop_dom (ls, dl, t, dt, rc)"
    and fr: "fresh dl" and dt: "dt \<le> B"
  shows "add_driving_loop_dom (ls, dl, t, dt, rc)"
proof -
  consider "11 \<le> rc" | "rc \<le> 0" | "0 < rc" "rc < 11" by linarith
  then show ?thesis
  proof cases
    case 1 then show ?thesis using F fr dt by simp
  next
    case 2 then show ?thesis using W fr dt by simp
  next
    case 3
    show ?thesis
    proof (rule dom_step)
      assume pos: "0 < dt"
      then have "\<not> available_hours dl rc dt \<le> 0"
        using fr 3 by (simp add: available_fresh)
      from fresh_drive[OF fr this, of ls t] obtain ls' dl' t' where
        it: "add_driving_iter (ls, dl, t, dt, rc) =
               (ls', dl', t', dt - min (min 11 rc) dt, rc - min (min 11 rc) dt)" by blast
      show "add_driving_loop_dom (add_driving_iter (ls, dl, t, dt, rc))"
      proof (cases "dt \<le> rc")
        case True
        then have "min (min 11 rc) dt = dt" using 3 by simp
        then show ?thesis unfolding it by (intro dom_exit) simp
      next
        case False
        then have m: "min (min 11 rc) dt = rc" using 3 by simp
        have av: "available_hours dl' (rc - rc) (dt - rc) \<le> 0"
          using available_le(3)[of dl' "rc - rc" "dt - rc"] by simp
        have "add_driving_loop_dom (ls', dl', t', dt - rc, rc - rc)"
        proof (rule dom_rest[OF av])
          fix ls'' dl'' t''
          assume fr'': "fresh dl''"
          have le: "dt - rc \<le> B" using dt 3 by simp
          show "add_driving_loop_dom
                  (ls'', dl'', t'', dt - rc, if (date_of t' + 1) mod 7 = 0 then 70 else rc - rc)"
            using F[OF fr'' le, of 70] W[OF fr'' le, of 0] by simp
        qed
        then show ?thesis unfolding it m .
      qed
    qed
  qed
qed

lemma fresh_dom_bounded:
  "fresh dl \<Longrightarrow> dt \<le> 11 * of_nat N \<Longrightarrow> add_driving_loop_dom (ls, dl, t, dt, rc)"
proof (induction N arbitrary: ls dl t dt rc)
  case 0
  then show ?case by (intro dom_exit) simp
next
  case (Suc N)
  have F: "add_driving_loop_dom (ls, dl, t, dt, rc)"
    if "fresh dl" "dt \<le> 11 * of_nat (Suc N)" "11 \<le> rc" for ls dl t dt rc
  proof (rule F_step[where B = "11 * of_nat N"])
    show "dt \<le> 11 * of_nat N + 11" using that(2) by simp
  qed (use that Suc.IH in blast)+
  have W: "add_driving_loop_dom (ls, dl, t, dt, rc)"
    if "fresh dl" "dt \<le> 11 * of_nat (Suc N)" "rc \<le> 0" for ls dl t dt rc
  proof -
    obtain k :: nat where k: "(date_of t + 1 + int k) mod 7 = 0"
      using monday_ex[of "date_of t"] by (elim exE)
    show ?thesis
    proof (rule W_step[where k = k])
      show "add_driving_loop_dom (ls, dl, t, dt, rc)" if "fresh dl" "11 \<le> rc" for ls dl t rc
        using F that \<open>dt \<le> 11 * of_nat (Suc N)\<close> by blast
    qed (use that k in blast)+
  qed
  show ?case
  proof (rule M_step[where B = "11 * of_nat (Suc N)"])
    show "fresh dl" by (rule Suc.prems)
    show "dt \<le> 11 * of_nat (Suc N)" by (rule Suc.prems)
  qed (use F W in blast)+
qed

lemma fresh_dom: "fresh dl \<Longrightarrow> add_driving_loop_dom (ls, dl, t, dt, rc)"
proof -
  assume fr: "fresh dl"
  obtain N :: nat where "dt \<le> of_nat N" using real_arch_simple[of dt] by (elim exE)
  then have "dt \<le> 11 * of_nat N" by linarith
  with fr show ?thesis by (rule fresh_dom_bounded)
qed

lemma stop_dom:
  assumes "dt \<le> 0 \<or> available_hours dl rc dt \<le> 0"
  shows "add_driving_loop_dom (ls, dl, t, dt, rc)"
proof (cases "dt \<le> 0")
  case True
  then show ?thesis by (rule dom_exit)
next
  case False
  with assms have "available_hours dl rc dt \<le> 0" by simp
  then show ?thesis by (rule dom_rest) (rule fresh_dom)
qed

lemma used_up:
  assumes "av = 11 - d \<or> av = rc \<or> av = dt"
  shows "dt - av \<le> 0 \<or> min (min (min (11 - (d + av)) c) (rc - av)) (dt - av) \<le> (0::rat)"
  using assms by (auto simp: min_def)

lemma after_cross_dom:
  assumes o: "on_duty (totals dl) = 0" and d: "0 \<le> driving (totals dl)"
    and clock: "tod t \<le> 9 + driving (totals dl)"
  shows "add_driving_loop_dom (ls, dl, t, dt, rc)"
proof (cases "dt \<le> 0 \<or> available_hours dl rc dt \<le> 0")
  case True
  then show ?thesis by (rule stop_dom)
next
  case False
  define av where "av = available_hours dl rc dt"
  have pos: "\<not> av \<le> 0" using False by (simp add: av_def)
  have le: "av \<le> 11 - driving (totals dl)" unfolding av_def by (rule available_le)
  have "date_of (t + av) = date_of t"
    by (rule date_of_same) (use pos le clock in auto)
  with iter_drive[of dl rc dt ls t] pos obtain ls' dl' t' where
    it: "add_driving_iter (ls, dl, t, dt, rc) = (ls', dl', t', dt - av, rc - av)"
    and d': "driving (totals dl') = driving (totals dl) + av"
    and o': "on_duty (totals dl') = on_duty (totals dl)"
    unfolding av_def by auto
  have "av = 11 - driving (totals dl) \<or> av = rc \<or> av = dt"
    using d o unfolding av_def available_hours_def max_drive_hours_def max_on_duty_hours_def
    by (auto simp: min_def)
  from used_up[OF this, of "14 - on_duty (totals dl')"]
  have "dt - av \<le> 0 \<or> available_hours dl' (rc - av) (dt - av) \<le> 0"
    unfolding available_hours_def max_drive_hours_def max_on_duty_hours_def d' by simp
  then have "add_driving_loop_dom (ls', dl', t', dt - av, rc - av)" by (rule stop_dom)
  then show ?thesis by (intro dom_step) (simp add: it)
qed

lemma any_dom_bounded:
  "0 < 14 - on_duty (totals dl) \<Longrightarrow>
   11 - driving (totals dl) \<le> of_nat n * (14 - on_duty (totals dl)) \<Longrightarrow>
   add_driving_loop_dom (ls, dl, t, dt, rc)"
proof (induction n arbitrary: ls dl t dt rc)
  case 0
  have "available_hours dl rc dt \<le> 0"
    using available_le(1)[of dl rc dt] 0 by simp
  then show ?case by (intro stop_dom) simp
next
  case (Suc n)
  show ?case
  proof (cases "dt \<le> 0 \<or> available_hours dl rc dt \<le> 0")
    case True
    then show ?thesis by (rule stop_dom)
  next
    case False
    define av where "av = available_hours dl rc dt"
    have pos: "\<not> av \<le> 0" using False by (simp add: av_def)
    from iter_drive[of dl rc dt ls t] pos obtain ls' dl' t' where
      it: "add_driving_iter (ls, dl, t, dt, rc) = (ls', dl', t', dt - av, rc - av)"
      and alt: "driving (totals dl') = av \<and> on_duty (totals dl') = 0 \<and> tod t' \<le> 9 + av
          \<or> driving (totals dl') = driving (totals dl) + av
             \<and> on_duty (totals dl') = on_duty (totals dl)"
      unfolding av_def by auto
    have "add_driving_loop_dom (ls', dl', t', dt - av, rc - av)"
      using alt
    proof
      assume "driving (totals dl') = av \<and> on_duty (totals dl') = 0 \<and> tod t' \<le> 9 + av"
      then show ?thesis using pos by (intro after_cross_dom) auto
    next
      assume same: "driving (totals dl') = driving (totals dl) + av
             \<and> on_duty (totals dl') = on_duty (totals dl)"
      show ?thesis
      proof (cases "av = 14 - on_duty (totals dl)")
        case True
        have "11 - driving (totals dl') \<le> of_nat n * (14 - on_duty (totals dl'))"
          using Suc.prems(2) same True by (simp add: algebra_simps)
        moreover have "0 < 14 - on_duty (totals dl')" using same Suc.prems(1) by simp
        ultimately show ?thesis by (intro Suc.IH)
      next
        case False
        then have "av = 11 - driving (totals dl) \<or> av = rc \<or> av = dt"
          unfolding av_def available_hours_def max_drive_hours_def max_on_duty_hours_def
          by (auto simp: min_def split: if_splits)
        from used_up[OF this, of "14 - on_duty (totals dl')"]
        have "dt - av \<le> 0 \<or> available_hours dl' (rc - av) (dt - av) \<le> 0"
          unfolding available_hours_def max_drive_hours_def max_on_duty_hours_def
          using same by simp
        then show ?thesis by (rule stop_dom)
      qed
    qed
    then show ?thesis by (intro dom_step) (simp add: it)
  qed
qed

lemma add_driving_loop_total: "add_driving_loop_dom s"
proof -
  obtain ls dl t dt rc where s: "s = (ls, dl, t, dt, rc)" by (cases s)
  show ?thesis
  proof (cases "0 < 14 - on_duty (totals dl)")
    case True
    obtain n :: nat where "(11 - driving (totals dl)) / (14 - on_duty (totals dl)) \<le> of_nat n"
      using real_arch_simple[of "(11 - driving (totals dl)) / (14 - on_duty (totals dl))"]
      by (elim exE)
    then have "11 - driving (totals dl) \<le> of_nat n * (14 - on_duty (totals dl))"
      using True by (simp add: pos_divide_le_eq)
    with True show ?thesis unfolding s by (rule any_dom_bounded)
  next
    case False
    then have "available_hours dl rc dt \<le> 0"
      using available_le(2)[of dl rc dt] by simp
    then show ?thesis unfolding s by (intro stop_dom) simp
  qed
qed

termination add_driving_loop
  by (simp add: add_driving_loop_total)

declare add_driving_loop.simps [simp del]

section \<open>The loop as an iteration of its body\<close>

lemma rest_clock_34: "date_of (34 + replace_hour_minute t 8 0) = date_of t + 1"
  using rest_clock(2)[of t] by (simp add: add.commute)

lemma iter_rest_eq:
  assumes "available_hours dl rc dt \<le> 0"
  shows "add_driving_iter (ls, dl, t, dt, rc) =
           (ls @ [dl],
            (init_day_log (date_of t + 1))
              \<lparr>grid := paint (replicate 96 OFF) (slot_index (replace_hour_minute t 8 0 + 24))
                         (slot_index (replace_hour_minute t 8 0 + 24 + 10)) SB,
               events := [make_event Sleeper_berth (replace_hour_minute t 8 0 + 24)
                            (replace_hour_minute t 8 0 + 24 + 10) 10 None],
               totals := \<lparr>driving = 0, on_duty = 0, off_duty = 0, sleeper = 10\<rparr>\<rparr>,
            replace_hour_minute t 8 0 + 24 + 10, dt,
            if (date_of t + 1) mod 7 = 0 then 70 else rc)"
  using assms
  by (simp add: add_driving_iter_def Let_def rest_event rest_clock rest_clock_34
      finalize_day_def init_day_log_def weekday_def max_cycle_hours_def)

lemma loop_as_iteration:
  "\<exists>n. add_driving_loop s = (add_driving_iter ^^ n) s
      \<and> st_drive_time ((add_driving_iter ^^ n) s) \<le> 0
      \<and> (\<forall>m<n. 0 < st_drive_time ((add_driving_iter ^^ m) s))"
proof (induction s rule: add_driving_loop.induct)
  case (1 ls dl t dt rc)
  let ?s = "(ls, dl, t, dt, rc)"
  show ?case
  proof (cases "0 < dt")
    case False
    then have "add_driving_loop ?s = (add_driving_iter ^^ 0) ?s
        \<and> st_drive_time ((add_driving_iter ^^ 0) ?s) \<le> 0
        \<and> (\<forall>m<0. 0 < st_drive_time ((add_driving_iter ^^ m) ?s))"
      by (simp add: add_driving_loop.simps st_drive_time_def)
    then show ?thesis by blast
  next
    case True
    from 1[OF True] obtain n where
      n: "add_driving_loop (add_driving_iter ?s) = (add_driving_iter ^^ n) (add_driving_iter ?s)"
         "st_drive_time ((add_driving_iter ^^ n) (add_driving_iter ?s)) \<le> 0"
         "\<forall>m<n. 0 < st_drive_time ((add_driving_iter ^^ m) (add_driving_iter ?s))"
      by blast
    have "add_driving_loop ?s = (add_driving_iter ^^ Suc n) ?s"
      using n(1) True by (simp add: add_driving_loop.simps funpow_swap1)
    moreover have "st_drive_time ((add_driving_iter ^^ Suc n) ?s) \<le> 0"
      using n(2) by (simp add: funpow_swap1)
    moreover have "0 < st_drive_time ((add_driving_iter ^^ m) ?s)" if "m < Suc n" for m
    proof (cases m)
      case 0
      then show ?thesis using True by (simp add: st_drive_time_def)
    next
      case (Suc k)
      then have "k < n" using that by simp
      with n(3) show ?thesis unfolding Suc by (simp add: funpow_swap1)
    qed
    ultimately show ?thesis by blast
  qed
qed

section \<open>Evaluating the clock inside one day\<close>

lemma hour_of_replace_8_0: "hour_of (replace_hour_minute t 8 0) = 8"
proof -
  obtain f where f: "0 \<le> f" "f < 1 / 60"
      "replace_hour_minute t 8 0 = 24 * of_int (date_of t) + 8 + f"
    using replace_8_0 by blast
  have "\<lfloor>of_int (24 * date_of t + 8) + f\<rfloor> = 24 * date_of t + 8"
    by (rule floor_unique) (use f in auto)
  then have "\<lfloor>replace_hour_minute t 8 0\<rfloor> = 24 * date_of t + 8"
    unfolding f(3) by simp
  then show ?thesis by (simp add: hour_of_def)
qed

lemma minute_of_replace_8_0: "minute_of (replace_hour_minute t 8 0) = 0"
proof -
  obtain f where f: "0 \<le> f" "f < 1 / 60"
      "replace_hour_minute t 8 0 = 24 * of_int (date_of t) + 8 + f"
    using replace_8_0 by blast
  have "\<lfloor>of_int (60 * (24 * date_of t + 8)) + 60 * f\<rfloor> = 60 * (24 * date_of t + 8)"
    by (rule floor_unique) (use f in auto)
  moreover have "replace_hour_minute t 8 0 * 60 = of_int (60 * (24 * date_of t + 8)) + 60 * f"
    unfolding f(3) by (simp add: algebra_simps)
  ultimately have "\<lfloor>replace_hour_minute t 8 0 * 60\<rfloor> = 60 * (24 * date_of t + 8)"
    by simp
  then show ?thesis by (simp add: minute_of_def)
qed

lemma strftime_replace_8_0: "strftime_HM (replace_hour_minute t 8 0) = ''08:00''"
  by (simp add: strftime_HM_def hour_of_replace_8_0 minute_of_replace_8_0 two_digits_def)

lemma floor_rat_numeral:
  "\<lfloor>(numeral a :: rat) / numeral b\<rfloor> = numeral a div numeral b"
  "\<lfloor>(1 :: rat) / numeral b\<rfloor> = 1 div numeral b"
  using floor_divide_of_int_eq[of "numeral a" "numeral b", where ?'a = rat]
        floor_divide_of_int_eq[of 1 "numeral b", where ?'a = rat] by simp_all

lemma day_start:
  "replace_hour_minute_second now 8 0 = 24 * of_int (date_of now) + 8"
  by (simp add: replace_hour_minute_second_def)

lemma date_of_in_day:
  "0 \<le> x \<Longrightarrow> x < 24 \<Longrightarrow> date_of (x + 24 * of_int k) = k"
  using date_of_shift[of x k] by (simp add: add.commute)

lemma hour_of_in_day: "hour_of (x + 24 * of_int k) = hour_of x"
proof -
  have "x + 24 * of_int k = x + of_int (24 * k)" by simp
  then have "\<lfloor>x + 24 * of_int k\<rfloor> = \<lfloor>x\<rfloor> + 24 * k" by (simp only: floor_add_int)
  then show ?thesis by (simp add: hour_of_def)
qed

lemma minute_of_in_day: "minute_of (x + 24 * of_int k) = minute_of x"
proof -
  have "(x + 24 * of_int k) * 60 = x * 60 + of_int (1440 * k)" by (simp add: algebra_simps)
  then have "\<lfloor>(x + 24 * of_int k) * 60\<rfloor> = \<lfloor>x * 60\<rfloor> + 1440 * k" by (simp only: floor_add_int)
  moreover have "(m + 1440 * k) mod 60 = m mod 60" for m :: int
    using mod_mult_self2[of m 60 "24 * k"] by simp
  ultimately show ?thesis by (simp only: minute_of_def)
qed

lemma strftime_in_day: "strftime_HM (x + 24 * of_int k) = strftime_HM x"
  by (simp add: strftime_HM_def hour_of_in_day minute_of_in_day)

lemma slot_in_day: "slot_index (x + 24 * of_int k) = slot_index x"
  by (simp add: slot_index_def hour_of_in_day minute_of_in_day)

lemma date_of_day_plus: "0 \<le> x \<Longrightarrow> x < 24 \<Longrightarrow> date_of (24 * of_int k + x) = k"
  by (rule date_of_shift)

lemma strftime_day_plus: "strftime_HM (24 * of_int k + x) = strftime_HM x"
  using strftime_in_day[of x k] by (simp add: add.commute)

lemma slot_day_plus: "slot_index (24 * of_int k + x) = slot_index x"
  using slot_in_day[of x k] by (simp add: add.commute)

lemma add_event_in_day:
  assumes "0 \<le> x" "0 \<le> h" "x + h < 24"
  shows "add_event ls dl st (24 * of_int k + x) h a =
     (ls, 24 * of_int k + (x + h),
      dl\<lparr>grid := paint (grid dl) (slot_index x) (slot_index (x + h)) (status_code st),
         events := events dl @ [make_event st x (x + h) h a],
         totals := add_total (totals dl) st h\<rparr>)"
proof -
  have "date_of (24 * of_int k + x) = k" "date_of (24 * of_int k + (x + h)) = k"
    using assms by (simp_all add: date_of_day_plus)
  then have "\<not> date_of (24 * of_int k + x) < date_of (24 * of_int k + x + h)"
    by (simp add: add.assoc)
  from add_event_same[OF this, of ls dl st a] show ?thesis
    by (simp add: add.assoc make_event_def strftime_day_plus slot_day_plus)
qed

lemma add_driving_single:
  assumes "0 < dt" "available_hours dl rc dt = dt" "0 \<le> x" "x + dt < 24"
  shows "add_driving ls dl (24 * of_int k + x) dt rc =
     (ls, 24 * of_int k + (x + dt),
      dl\<lparr>grid := paint (grid dl) (slot_index x) (slot_index (x + dt)) D,
         events := events dl @ [make_event Driving x (x + dt) dt None],
         totals := (totals dl)\<lparr>driving := driving (totals dl) + dt\<rparr>\<rparr>, rc - dt)"
proof -
  have it: "add_driving_iter (ls, dl, 24 * of_int k + x, dt, rc) =
     (ls, dl\<lparr>grid := paint (grid dl) (slot_index x) (slot_index (x + dt)) D,
         events := events dl @ [make_event Driving x (x + dt) dt None],
         totals := (totals dl)\<lparr>driving := driving (totals dl) + dt\<rparr>\<rparr>,
      24 * of_int k + (x + dt), 0, rc - dt)"
    using assms by (simp add: add_driving_iter_def Let_def add_event_in_day)
  show ?thesis
    unfolding add_driving_def
    by (subst add_driving_loop.simps, simp only: assms(1) if_True it,
        subst add_driving_loop.simps, simp)
qed

lemma strftime_whole_hour:
  "strftime_HM 8 = ''08:00''" "strftime_HM 9 = ''09:00''" "strftime_HM 11 = ''11:00''"
  "strftime_HM 14 = ''14:00''" "strftime_HM 15 = ''15:00''"
  by (simp_all add: strftime_HM_def hour_of_def minute_of_def two_digits_def)

section \<open>The remaining cycle through the loop\<close>













section \<open>Log sheets and events through a run\<close>

lemma extends_by_refl: "extends_by ls dl ls dl []"
  by (simp add: extends_by_def)

lemma extends_by_trans:
  "extends_by ls dl ls' dl' es \<Longrightarrow> extends_by ls' dl' ls'' dl'' es'
   \<Longrightarrow> extends_by ls dl ls'' dl'' (es @ es')"
  by (auto simp: extends_by_def)

lemma add_event_extends:
  "extends_by ls dl (fst (add_event ls dl st t h a)) (snd (snd (add_event ls dl st t h a)))
     [make_event st
        (if date_of t < date_of (t + h) then replace_hour_minute (t + h) 8 0 else t)
        (fst (snd (add_event ls dl st t h a))) h a]"
proof (cases "date_of t < date_of (t + h)")
  case True
  then show ?thesis
    by (simp add: add_event_cross extends_by_def all_events_def init_day_log_def)
next
  case False
  then show ?thesis
    by (simp add: add_event_same extends_by_def all_events_def)
qed

lemma make_event_fields:
  "ev_status (make_event st t1 t2 h a) = st"
  "ev_duration (make_event st t1 t2 h a) = h"
  "ev_activity (make_event st t1 t2 h None) = None"
  "x \<noteq> [] \<Longrightarrow> ev_activity (make_event st t1 t2 h (Some x)) = Some x"
  by (simp_all add: make_event_def)

lemma iter_extends:
  "\<exists>es. extends_by ls dl (st_log_sheets (add_driving_iter (ls, dl, t, dt, rc)))
            (st_day_log (add_driving_iter (ls, dl, t, dt, rc))) es
      \<and> (\<forall>e\<in>set es. ev_activity e = None)"
proof (cases "available_hours dl rc dt \<le> 0")
  case True
  have "extends_by ls dl (st_log_sheets (add_driving_iter (ls, dl, t, dt, rc)))
            (st_day_log (add_driving_iter (ls, dl, t, dt, rc)))
            [make_event Sleeper_berth (replace_hour_minute t 8 0 + 24)
                            (replace_hour_minute t 8 0 + 24 + 10) 10 None]"
    unfolding iter_rest_eq[OF True]
    by (simp add: extends_by_def all_events_def st_log_sheets_def st_day_log_def init_day_log_def)
  then show ?thesis by (intro exI conjI, assumption) (simp add: make_event_fields)
next
  case False
  let ?a = "available_hours dl rc dt"
  have it: "add_driving_iter (ls, dl, t, dt, rc) =
          (fst (add_event ls dl Driving t ?a None), snd (snd (add_event ls dl Driving t ?a None)),
           fst (snd (add_event ls dl Driving t ?a None)), dt - ?a, rc - ?a)"
    using False by (simp add: add_driving_iter_def Let_def split: prod.splits)
  show ?thesis
    unfolding it st_log_sheets_def st_day_log_def
    using add_event_extends[of ls dl Driving t ?a None]
    by (intro exI conjI, simp) (simp add: make_event_fields)
qed

lemma funpow_extends:
  "\<exists>es. extends_by (st_log_sheets s) (st_day_log s)
            (st_log_sheets ((add_driving_iter ^^ n) s)) (st_day_log ((add_driving_iter ^^ n) s)) es
      \<and> (\<forall>e\<in>set es. ev_activity e = None)"
proof (induction n)
  case 0
  show ?case using extends_by_refl by (intro exI[of _ "[]"]) simp
next
  case (Suc n)
  let ?s = "(add_driving_iter ^^ n) s"
  obtain es where es: "extends_by (st_log_sheets s) (st_day_log s)
            (st_log_sheets ?s) (st_day_log ?s) es" "\<forall>e\<in>set es. ev_activity e = None"
    using Suc by blast
  obtain ls dl t dt rc where s: "?s = (ls, dl, t, dt, rc)" by (cases ?s)
  obtain es' where es': "extends_by ls dl (st_log_sheets (add_driving_iter ?s))
            (st_day_log (add_driving_iter ?s)) es'" "\<forall>e\<in>set es'. ev_activity e = None"
    using iter_extends[of ls dl t dt rc] unfolding s by blast
  have "extends_by (st_log_sheets s) (st_day_log s)
            (st_log_sheets (add_driving_iter ?s)) (st_day_log (add_driving_iter ?s)) (es @ es')"
    by (rule extends_by_trans[OF es(1)]) (use es'(1) s in \<open>simp add: st_log_sheets_def st_day_log_def\<close>)
  moreover have "\<forall>e\<in>set (es @ es'). ev_activity e = None" using es(2) es'(2) by auto
  ultimately show ?case by (intro exI[of _ "es @ es'"]) simp
qed

lemma add_driving_extends:
  "\<exists>es. extends_by ls dl (fst (add_driving ls dl t dt rc))
            (fst (snd (snd (add_driving ls dl t dt rc)))) es
      \<and> (\<forall>e\<in>set es. ev_activity e = None)"
proof -
  obtain n where n: "add_driving_loop (ls, dl, t, dt, rc) = (add_driving_iter ^^ n) (ls, dl, t, dt, rc)"
    using loop_as_iteration[of "(ls, dl, t, dt, rc)"] by blast
  have "fst (add_driving ls dl t dt rc) = st_log_sheets ((add_driving_iter ^^ n) (ls, dl, t, dt, rc))"
       "fst (snd (snd (add_driving ls dl t dt rc))) = st_day_log ((add_driving_iter ^^ n) (ls, dl, t, dt, rc))"
    by (simp_all add: add_driving_def n[symmetric] st_log_sheets_def st_day_log_def split: prod.splits)
  then show ?thesis
    using funpow_extends[of "(ls, dl, t, dt, rc)" n]
    by (simp add: st_log_sheets_def st_day_log_def)
qed

lemma drive_segment_events:
  "\<exists>es ys. trip_events (drive_segment h s) = trip_events s @ es
      \<and> (\<forall>e\<in>set es. ev_activity e = None)
      \<and> fst (drive_segment h s) = fst s @ ys"
proof -
  obtain ls t dl rc where s: "s = (ls, t, dl, rc)" by (cases s)
  obtain es where "extends_by ls dl (fst (add_driving ls dl t h rc))
            (fst (snd (snd (add_driving ls dl t h rc)))) es" "\<forall>e\<in>set es. ev_activity e = None"
    using add_driving_extends by blast
  then show ?thesis
    by (auto simp: s drive_segment_def trip_events_def extends_by_def split: prod.splits)
qed

lemma fueling_stop_events:
  "\<exists>ev ys. trip_events (fueling_stop s) = trip_events s @ [ev]
      \<and> ev_status ev = On_duty \<and> ev_duration ev = 1 / 2 \<and> ev_activity ev = Some ''Fueling''
      \<and> fst (fueling_stop s) = fst s @ ys"
proof -
  obtain ls t dl rc where s: "s = (ls, t, dl, rc)" by (cases s)
  show ?thesis
    using add_event_extends[of ls dl On_duty t fuel_time "Some ''Fueling''"]
    by (auto simp: s fueling_stop_def trip_events_def extends_by_def make_event_fields
        fuel_time_def split: prod.splits)
qed

lemma segment_step_events:
  "\<exists>es ys. trip_events (segment_step n h i s) = trip_events s @ es
      \<and> length (filter (\<lambda>e. ev_activity e = Some ''Fueling'') es) = (if i < n then 1 else 0)
      \<and> (\<forall>e\<in>set es. ev_activity e = Some ''Fueling''
            \<longrightarrow> ev_status e = On_duty \<and> ev_duration e = 1 / 2)
      \<and> fst (segment_step n h i s) = fst s @ ys"
proof -
  obtain es ys where d: "trip_events (drive_segment h s) = trip_events s @ es"
      "\<forall>e\<in>set es. ev_activity e = None" "fst (drive_segment h s) = fst s @ ys"
    using drive_segment_events by blast
  have none: "filter (\<lambda>e. ev_activity e = Some ''Fueling'') es = []"
    using d(2) by (auto simp: filter_empty_conv)
  show ?thesis
  proof (cases "i < n")
    case False
    then show ?thesis using d none
      by (intro exI[of _ es] exI[of _ ys]) (simp add: segment_step_def)
  next
    case True
    obtain ev zs where f: "trip_events (fueling_stop (drive_segment h s))
          = trip_events (drive_segment h s) @ [ev]"
        "ev_status ev = On_duty" "ev_duration ev = 1 / 2" "ev_activity ev = Some ''Fueling''"
        "fst (fueling_stop (drive_segment h s)) = fst (drive_segment h s) @ zs"
      using fueling_stop_events by blast
    show ?thesis using True d none f
      by (intro exI[of _ "es @ [ev]"] exI[of _ "ys @ zs"]) (auto simp: segment_step_def)
  qed
qed

lemma segments_events:
  "\<exists>es ys. trip_events (fold (segment_step n h) is s) = trip_events s @ es
      \<and> length (filter (\<lambda>e. ev_activity e = Some ''Fueling'') es)
          = length (filter (\<lambda>i. i < n) is)
      \<and> (\<forall>e\<in>set es. ev_activity e = Some ''Fueling''
            \<longrightarrow> ev_status e = On_duty \<and> ev_duration e = 1 / 2)
      \<and> fst (fold (segment_step n h) is s) = fst s @ ys"
proof (induction "is" arbitrary: s)
  case Nil
  show ?case by (intro exI[of _ "[]"]) simp
next
  case (Cons i "is")
  obtain es ys where a: "trip_events (segment_step n h i s) = trip_events s @ es"
      "length (filter (\<lambda>e. ev_activity e = Some ''Fueling'') es) = (if i < n then 1 else 0)"
      "\<forall>e\<in>set es. ev_activity e = Some ''Fueling''
            \<longrightarrow> ev_status e = On_duty \<and> ev_duration e = 1 / 2"
      "fst (segment_step n h i s) = fst s @ ys"
    using segment_step_events by blast
  obtain es' ys' where b:
      "trip_events (fold (segment_step n h) is (segment_step n h i s))
         = trip_events (segment_step n h i s) @ es'"
      "length (filter (\<lambda>e. ev_activity e = Some ''Fueling'') es')
          = length (filter (\<lambda>i. i < n) is)"
      "\<forall>e\<in>set es'. ev_activity e = Some ''Fueling''
            \<longrightarrow> ev_status e = On_duty \<and> ev_duration e = 1 / 2"
      "fst (fold (segment_step n h) is (segment_step n h i s))
         = fst (segment_step n h i s) @ ys'"
    using Cons.IH by blast
  show ?case using a b
    by (intro exI[of _ "es @ es'"] exI[of _ "ys @ ys'"]) auto
qed

lemma segment_step_apply:
  "segment_step n h i s
     = (if i < n then fueling_stop (drive_segment h s) else drive_segment h s)"
  by (simp add: segment_step_def)

lemma segments_before_last:
  "k \<le> n \<Longrightarrow> fold (segment_step n h) [0 ..< k] s
     = ((\<lambda>x. fueling_stop (drive_segment h x)) ^^ k) s"
proof (induction k)
  case 0
  show ?case by simp
next
  case (Suc k)
  then have IH: "fold (segment_step n h) [0 ..< k] s
       = ((\<lambda>x. fueling_stop (drive_segment h x)) ^^ k) s"
    and k: "k < n" by simp_all
  have "fold (segment_step n h) [0 ..< Suc k] s
       = segment_step n h k (fold (segment_step n h) [0 ..< k] s)"
    by simp
  also have "\<dots> = fueling_stop (drive_segment h (fold (segment_step n h) [0 ..< k] s))"
    using k by (simp only: segment_step_apply if_True)
  finally show ?case by (simp only: IH funpow.simps o_apply)
qed

lemma segments_structure:
  "fold (segment_step n h) [0 ..< n + 1] s
     = drive_segment h (((\<lambda>x. fueling_stop (drive_segment h x)) ^^ n) s)"
proof -
  have "fold (segment_step n h) [0 ..< n + 1] s
       = segment_step n h n (fold (segment_step n h) [0 ..< n] s)"
    by simp
  also have "\<dots> = drive_segment h (fold (segment_step n h) [0 ..< n] s)"
    by (simp only: segment_step_apply less_irrefl if_False)
  finally show ?thesis by (simp only: segments_before_last[OF order_refl])
qed

lemma count_below: "length (filter (\<lambda>i. i < n) [0 ..< n + 1]) = n"
proof -
  have "filter (\<lambda>i. i < n) [0 ..< n] = [0 ..< n]"
    by (simp add: filter_id_conv)
  then show ?thesis by simp
qed

lemma trip_events_proj: "trip_events s = all_events (fst s @ [fst (snd (snd s))])"
  by (cases s) (simp add: trip_events_def)

lemma unloading_events:
  "\<exists>unloading ys.
     all_events (fst (add_event (fst s) (fst (snd (snd s))) On_duty (fst (snd s)) 1
                       (Some ''Unloading''))
                 @ [snd (snd (add_event (fst s) (fst (snd (snd s))) On_duty (fst (snd s)) 1
                       (Some ''Unloading'')))])
       = trip_events s @ [unloading]
   \<and> ev_activity unloading = Some ''Unloading''
   \<and> fst (add_event (fst s) (fst (snd (snd s))) On_duty (fst (snd s)) 1 (Some ''Unloading''))
       = fst s @ ys"
  using add_event_extends[of "fst s" "fst (snd (snd s))" On_duty "fst (snd s)" 1
        "Some ''Unloading''"]
  unfolding trip_events_proj extends_by_def
  by (metis make_event_fields(4) list.distinct(1))

lemma generate_as_states:
  "generate_from_route now rd cu ls0 =
     (let t0 = replace_hour_minute_second now 8 0;
          a = add_event ls0 (init_day_log (date_of t0)) On_duty t0 1 (Some ''Loading'');
          s2 = drive_segment (duration (fst (legs rd)))
                 (fst a, fst (snd a), snd (snd a), 70 - cu);
          s3 = fold (segment_step (fuel_stops rd) (time_per_segment rd))
                 [0 ..< fuel_stops rd + 1] s2;
          e = add_event (fst s3) (fst (snd (snd s3))) On_duty (fst (snd s3)) 1
                (Some ''Unloading'')
      in fst e @ [snd (snd e)])"
  by (simp add: generate_from_route_def Let_def drive_segment_def finalize_day_def
      pickup_dropoff_time_def max_cycle_hours_def split: prod.splits)

lemma generate_events:
  "\<exists>loading es1 es2 unloading.
     all_events (generate_from_route now rd cu []) = loading # es1 @ es2 @ [unloading]
   \<and> ev_activity loading = Some ''Loading''
   \<and> (\<forall>e\<in>set es1. ev_activity e = None)
   \<and> length (filter (\<lambda>e. ev_activity e = Some ''Fueling'') es2) = fuel_stops rd
   \<and> (\<forall>e\<in>set es2. ev_activity e = Some ''Fueling''
            \<longrightarrow> ev_status e = On_duty \<and> ev_duration e = 1 / 2)
   \<and> ev_activity unloading = Some ''Unloading''"
proof -
  define t0 where "t0 = replace_hour_minute_second now 8 0"
  define a where "a = add_event [] (init_day_log (date_of t0)) On_duty t0 1 (Some ''Loading'')"
  define s1 :: trip_state where "s1 = (fst a, fst (snd a), snd (snd a), 70 - cu)"
  define s2 where "s2 = drive_segment (duration (fst (legs rd))) s1"
  define s3 where "s3 = fold (segment_step (fuel_stops rd) (time_per_segment rd))
                 [0 ..< fuel_stops rd + 1] s2"
  define e where "e = add_event (fst s3) (fst (snd (snd s3))) On_duty (fst (snd s3)) 1
                (Some ''Unloading'')"
  have gen: "generate_from_route now rd cu [] = fst e @ [snd (snd e)]"
    by (simp add: generate_as_states Let_def e_def s3_def s2_def s1_def a_def t0_def)
  obtain loading where l: "trip_events s1 = [loading]" "ev_activity loading = Some ''Loading''"
    using add_event_extends[of "[]" "init_day_log (date_of t0)" On_duty t0 1 "Some ''Loading''"]
    by (simp add: s1_def a_def trip_events_def extends_by_def all_events_def init_day_log_def
        make_event_fields)
  obtain es1 where d: "trip_events s2 = trip_events s1 @ es1" "\<forall>e\<in>set es1. ev_activity e = None"
    using drive_segment_events[of "duration (fst (legs rd))" s1] unfolding s2_def by blast
  obtain es2 where f: "trip_events s3 = trip_events s2 @ es2"
      "length (filter (\<lambda>e. ev_activity e = Some ''Fueling'') es2)
          = length (filter (\<lambda>i. i < fuel_stops rd) [0 ..< fuel_stops rd + 1])"
      "\<forall>e\<in>set es2. ev_activity e = Some ''Fueling''
            \<longrightarrow> ev_status e = On_duty \<and> ev_duration e = 1 / 2"
    using segments_events[of "fuel_stops rd" "time_per_segment rd" "[0 ..< fuel_stops rd + 1]" s2]
    unfolding s3_def by blast
  obtain unloading where u: "all_events (fst e @ [snd (snd e)]) = trip_events s3 @ [unloading]"
      "ev_activity unloading = Some ''Unloading''"
    using unloading_events[of s3] unfolding e_def by blast
  have "all_events (generate_from_route now rd cu []) = loading # es1 @ es2 @ [unloading]"
    by (simp add: gen u(1) f(1) d(1) l(1))
  with l(2) d(2) f(2,3) u(2) show ?thesis
    by (simp only: count_below) blast
qed

lemma fuel_stops_floor:
  "0 \<le> total_distance rd \<Longrightarrow> int (fuel_stops rd) = \<lfloor>total_distance rd / 1000\<rfloor>"
  by (simp add: fuel_stops_def py_int_def fuel_interval_def)

lemma add_driving_unroll:
  "0 < dt \<Longrightarrow> add_driving ls dl t dt rc =
     (case add_driving_iter (ls, dl, t, dt, rc) of
        (ls', dl', t', dt', rc') \<Rightarrow> add_driving ls' dl' t' dt' rc')"
  by (simp add: add_driving_def add_driving_loop.simps[of ls dl t dt rc] split: prod.splits)

section \<open>Daily budgets through a run\<close>

lemma within_budget_on_duty:
  assumes "0 \<le> h" and "within_budget ls dl B"
  shows "within_budget (fst (add_event ls dl On_duty t h a))
           (snd (snd (add_event ls dl On_duty t h a))) (B + h)"
proof (cases "date_of t < date_of (t + h)")
  case True
  then show ?thesis using assms
    by (simp add: add_event_cross within_budget_def on_duty_sum_def init_day_log_def)
next
  case False
  then show ?thesis using assms
    by (simp add: add_event_same within_budget_def on_duty_sum_def)
qed

lemma within_budget_driving:
  assumes "0 \<le> h" and "h \<le> 11 - driving (totals dl)" and "within_budget ls dl B"
  shows "within_budget (fst (add_event ls dl Driving t h a))
           (snd (snd (add_event ls dl Driving t h a))) B"
proof (cases "date_of t < date_of (t + h)")
  case True
  then show ?thesis using assms
    by (simp add: add_event_cross within_budget_def on_duty_sum_def init_day_log_def)
next
  case False
  then show ?thesis using assms
    by (simp add: add_event_same within_budget_def on_duty_sum_def)
qed

lemma within_budget_iter:
  assumes "within_budget ls dl B"
  shows "within_budget (st_log_sheets (add_driving_iter (ls, dl, t, dt, rc)))
           (st_day_log (add_driving_iter (ls, dl, t, dt, rc))) B"
proof (cases "available_hours dl rc dt \<le> 0")
  case True
  show ?thesis
    unfolding iter_rest_eq[OF True] using assms
    by (simp add: within_budget_def on_duty_sum_def st_log_sheets_def st_day_log_def
        init_day_log_def)
next
  case False
  let ?a = "available_hours dl rc dt"
  have it: "add_driving_iter (ls, dl, t, dt, rc) =
          (fst (add_event ls dl Driving t ?a None), snd (snd (add_event ls dl Driving t ?a None)),
           fst (snd (add_event ls dl Driving t ?a None)), dt - ?a, rc - ?a)"
    using False by (simp add: add_driving_iter_def Let_def split: prod.splits)
  have "within_budget (fst (add_event ls dl Driving t ?a None))
           (snd (snd (add_event ls dl Driving t ?a None))) B"
    by (rule within_budget_driving) (use False available_le(1)[of dl rc dt] assms in auto)
  then show ?thesis by (simp add: it st_log_sheets_def st_day_log_def)
qed

lemma within_budget_funpow:
  "within_budget (st_log_sheets s) (st_day_log s) B \<Longrightarrow>
   within_budget (st_log_sheets ((add_driving_iter ^^ n) s))
     (st_day_log ((add_driving_iter ^^ n) s)) B"
proof (induction n)
  case 0
  then show ?case by simp
next
  case (Suc n)
  obtain ls dl t dt rc where s: "(add_driving_iter ^^ n) s = (ls, dl, t, dt, rc)"
    by (cases "(add_driving_iter ^^ n) s")
  have "within_budget ls dl B" using Suc by (simp add: s st_log_sheets_def st_day_log_def)
  from within_budget_iter[OF this, of t dt rc] show ?case by (simp add: s)
qed

lemma within_budget_add_driving:
  assumes "within_budget ls dl B"
  shows "within_budget (fst (add_driving ls dl t dt rc))
           (fst (snd (snd (add_driving ls dl t dt rc)))) B"
proof -
  obtain n where n: "add_driving_loop (ls, dl, t, dt, rc) = (add_driving_iter ^^ n) (ls, dl, t, dt, rc)"
    using loop_as_iteration[of "(ls, dl, t, dt, rc)"] by blast
  have "fst (add_driving ls dl t dt rc) = st_log_sheets ((add_driving_iter ^^ n) (ls, dl, t, dt, rc))"
       "fst (snd (snd (add_driving ls dl t dt rc))) = st_day_log ((add_driving_iter ^^ n) (ls, dl, t, dt, rc))"
    by (simp_all add: add_driving_def n[symmetric] st_log_sheets_def st_day_log_def split: prod.splits)
  then show ?thesis
    using within_budget_funpow[of "(ls, dl, t, dt, rc)" B n] assms
    by (simp add: st_log_sheets_def st_day_log_def)
qed

lemma within_budget_drive_segment:
  "within_budget (fst s) (fst (snd (snd s))) B \<Longrightarrow>
   within_budget (fst (drive_segment h s)) (fst (snd (snd (drive_segment h s)))) B"
  by (cases s) (simp add: drive_segment_def within_budget_add_driving)

lemma within_budget_fueling_stop:
  "within_budget (fst s) (fst (snd (snd s))) B \<Longrightarrow>
   within_budget (fst (fueling_stop s)) (fst (snd (snd (fueling_stop s)))) (B + 1 / 2)"
proof -
  obtain ls t dl rc where s: "s = (ls, t, dl, rc)" by (cases s)
  assume "within_budget (fst s) (fst (snd (snd s))) B"
  then have "within_budget ls dl B" by (simp add: s)
  from within_budget_on_duty[OF _ this, of "1 / 2" t "Some ''Fueling''"]
  show ?thesis by (auto simp: s fueling_stop_def fuel_time_def split: prod.splits)
qed

lemma within_budget_mono: "within_budget ls dl B \<Longrightarrow> B \<le> B' \<Longrightarrow> within_budget ls dl B'"
  by (simp add: within_budget_def)

lemma within_budget_segments:
  "within_budget (fst s) (fst (snd (snd s))) B \<Longrightarrow>
   within_budget (fst (fold (segment_step n h) is s))
     (fst (snd (snd (fold (segment_step n h) is s))))
     (B + of_nat (length (filter (\<lambda>i. i < n) is)) / 2)"
proof (induction "is" arbitrary: s B)
  case Nil
  then show ?case by simp
next
  case (Cons i "is")
  have d: "within_budget (fst (drive_segment h s)) (fst (snd (snd (drive_segment h s)))) B"
    using Cons.prems by (rule within_budget_drive_segment)
  show ?case
  proof (cases "i < n")
    case True
    have "within_budget (fst (segment_step n h i s)) (fst (snd (snd (segment_step n h i s))))
            (B + 1 / 2)"
      using within_budget_fueling_stop[OF d] True by (simp add: segment_step_apply)
    from Cons.IH[OF this] show ?thesis using True by (simp add: add.assoc add_divide_distrib)
  next
    case False
    have "within_budget (fst (segment_step n h i s)) (fst (snd (snd (segment_step n h i s)))) B"
      using d False by (simp add: segment_step_apply)
    from Cons.IH[OF this] show ?thesis using False by simp
  qed
qed

lemma within_budget_generate:
  "\<exists>ls dl. generate_from_route now rd cu [] = ls @ [dl]
     \<and> within_budget ls dl (2 + of_nat (fuel_stops rd) / 2)"
proof -
  define t0 where "t0 = replace_hour_minute_second now 8 0"
  define a where "a = add_event [] (init_day_log (date_of t0)) On_duty t0 1 (Some ''Loading'')"
  define s1 :: trip_state where "s1 = (fst a, fst (snd a), snd (snd a), 70 - cu)"
  define s2 where "s2 = drive_segment (duration (fst (legs rd))) s1"
  define s3 where "s3 = fold (segment_step (fuel_stops rd) (time_per_segment rd))
                 [0 ..< fuel_stops rd + 1] s2"
  define e where "e = add_event (fst s3) (fst (snd (snd s3))) On_duty (fst (snd s3)) 1
                (Some ''Unloading'')"
  have gen: "generate_from_route now rd cu [] = fst e @ [snd (snd e)]"
    by (simp add: generate_as_states Let_def e_def s3_def s2_def s1_def a_def t0_def)
  have "within_budget [] (init_day_log (date_of t0)) 0"
    by (simp add: within_budget_def on_duty_sum_def init_day_log_def)
  from within_budget_on_duty[OF _ this, of 1 t0 "Some ''Loading''"]
  have "within_budget (fst s1) (fst (snd (snd s1))) 1" by (simp add: s1_def a_def)
  then have "within_budget (fst s2) (fst (snd (snd s2))) 1"
    unfolding s2_def by (rule within_budget_drive_segment)
  then have "within_budget (fst s3) (fst (snd (snd s3)))
     (1 + of_nat (length (filter (\<lambda>i. i < fuel_stops rd) [0 ..< fuel_stops rd + 1])) / 2)"
    unfolding s3_def by (rule within_budget_segments)
  then have "within_budget (fst s3) (fst (snd (snd s3))) (1 + of_nat (fuel_stops rd) / 2)"
    by (simp only: count_below)
  from within_budget_on_duty[OF _ this, of 1 "fst (snd s3)" "Some ''Unloading''"]
  have "within_budget (fst e) (snd (snd e)) (2 + of_nat (fuel_stops rd) / 2)"
    by (simp add: e_def)
  with gen show ?thesis by blast
qed

lemma member_le_on_duty_sum:
  "list_all (\<lambda>x. 0 \<le> on_duty (totals x)) xs \<Longrightarrow> x \<in> set xs
   \<Longrightarrow> on_duty (totals x) \<le> on_duty_sum xs"
proof (induction xs)
  case Nil
  then show ?case by simp
next
  case (Cons y ys)
  have nonneg: "0 \<le> on_duty_sum ys"
    using Cons.prems(1) unfolding on_duty_sum_def
    by (intro sum_list_nonneg) (auto simp: list_all_iff)
  show ?case
  proof (cases "x = y")
    case True
    then show ?thesis using nonneg by (simp add: on_duty_sum_def)
  next
    case False
    then have "on_duty (totals x) \<le> on_duty_sum ys" using Cons by simp
    then show ?thesis using Cons.prems(1) by (simp add: on_duty_sum_def)
  qed
qed

section \<open>Single passes and driven segments\<close>


lemma iter_event:
  "\<exists>e. extends_by ls dl (st_log_sheets (add_driving_iter (ls, dl, t, dt, rc)))
            (st_day_log (add_driving_iter (ls, dl, t, dt, rc))) [e]
      \<and> ev_activity e = None
      \<and> (if available_hours dl rc dt \<le> 0
          then ev_status e = Sleeper_berth \<and> ev_duration e = 10
             \<and> st_drive_time (add_driving_iter (ls, dl, t, dt, rc)) = dt
          else ev_status e = Driving \<and> ev_duration e = available_hours dl rc dt
             \<and> st_drive_time (add_driving_iter (ls, dl, t, dt, rc))
                 = dt - available_hours dl rc dt)"
proof (cases "available_hours dl rc dt \<le> 0")
  case True
  have "extends_by ls dl (st_log_sheets (add_driving_iter (ls, dl, t, dt, rc)))
            (st_day_log (add_driving_iter (ls, dl, t, dt, rc)))
            [make_event Sleeper_berth (replace_hour_minute t 8 0 + 24)
                            (replace_hour_minute t 8 0 + 24 + 10) 10 None]"
    unfolding iter_rest_eq[OF True]
    by (simp add: extends_by_def all_events_def st_log_sheets_def st_day_log_def init_day_log_def)
  moreover have "st_drive_time (add_driving_iter (ls, dl, t, dt, rc)) = dt"
    unfolding iter_rest_eq[OF True] by (simp add: st_drive_time_def)
  ultimately show ?thesis using True
    by (intro exI[of _ "make_event Sleeper_berth (replace_hour_minute t 8 0 + 24)
                            (replace_hour_minute t 8 0 + 24 + 10) 10 None"])
       (simp add: make_event_fields)
next
  case False
  let ?a = "available_hours dl rc dt"
  have it: "add_driving_iter (ls, dl, t, dt, rc) =
          (fst (add_event ls dl Driving t ?a None), snd (snd (add_event ls dl Driving t ?a None)),
           fst (snd (add_event ls dl Driving t ?a None)), dt - ?a, rc - ?a)"
    using False by (simp add: add_driving_iter_def Let_def split: prod.splits)
  show ?thesis
    unfolding it st_log_sheets_def st_day_log_def st_drive_time_def
    using add_event_extends[of ls dl Driving t ?a None] False
    by (intro exI[of _ "make_event Driving
        (if date_of t < date_of (t + ?a) then replace_hour_minute (t + ?a) 8 0 else t)
        (fst (snd (add_event ls dl Driving t ?a None))) ?a None"])
       (simp add: make_event_fields)
qed

lemma loop_events:
  "0 < dt \<Longrightarrow>
   \<exists>es. extends_by ls dl (st_log_sheets (add_driving_loop (ls, dl, t, dt, rc)))
            (st_day_log (add_driving_loop (ls, dl, t, dt, rc))) es
      \<and> es \<noteq> [] \<and> ev_status (last es) = Driving
      \<and> (\<forall>e\<in>set es. ev_activity e = None
            \<and> (ev_status e = Driving \<and> 0 < ev_duration e \<and> ev_duration e \<le> dt
               \<or> ev_status e = Sleeper_berth \<and> ev_duration e = 10))"
proof (induction "(ls, dl, t, dt, rc)" arbitrary: ls dl t dt rc rule: add_driving_loop.induct)
  case (1 ls dl t dt rc)
  let ?s' = "add_driving_iter (ls, dl, t, dt, rc)"
  obtain ls' dl' t' dt' rc' where s': "?s' = (ls', dl', t', dt', rc')" by (cases ?s')
  have loop: "add_driving_loop (ls, dl, t, dt, rc) = add_driving_loop (ls', dl', t', dt', rc')"
    using "1.prems" by (simp add: add_driving_loop.simps[of ls dl t dt rc] s')
  obtain e where e: "extends_by ls dl ls' dl' [e]" "ev_activity e = None"
      "if available_hours dl rc dt \<le> 0
          then ev_status e = Sleeper_berth \<and> ev_duration e = 10 \<and> dt' = dt
          else ev_status e = Driving \<and> ev_duration e = available_hours dl rc dt
             \<and> dt' = dt - available_hours dl rc dt"
    using iter_event[of ls dl t dt rc]
    by (auto simp: s' st_log_sheets_def st_day_log_def st_drive_time_def split: if_splits)
  have shape: "ev_status e = Driving \<and> 0 < ev_duration e \<and> ev_duration e \<le> dt
               \<or> ev_status e = Sleeper_berth \<and> ev_duration e = 10"
    using e(3) available_le(4)[of dl rc dt] by (auto split: if_splits)
  have le: "dt' \<le> dt" using e(3) by (auto split: if_splits)
  show ?case
  proof (cases "0 < dt'")
    case True
    from "1.hyps"[OF "1.prems" s' True] obtain es where es:
      "extends_by ls' dl' (st_log_sheets (add_driving_loop (ls', dl', t', dt', rc')))
            (st_day_log (add_driving_loop (ls', dl', t', dt', rc'))) es"
      "es \<noteq> []" "ev_status (last es) = Driving"
      "\<forall>e\<in>set es. ev_activity e = None
            \<and> (ev_status e = Driving \<and> 0 < ev_duration e \<and> ev_duration e \<le> dt'
               \<or> ev_status e = Sleeper_berth \<and> ev_duration e = 10)"
      by blast
    have "extends_by ls dl (st_log_sheets (add_driving_loop (ls, dl, t, dt, rc)))
            (st_day_log (add_driving_loop (ls, dl, t, dt, rc))) ([e] @ es)"
      unfolding loop by (rule extends_by_trans[OF e(1) es(1)])
    moreover have "[e] @ es \<noteq> []" "ev_status (last ([e] @ es)) = Driving"
      using es(2,3) by simp_all
    moreover have "\<forall>x\<in>set ([e] @ es). ev_activity x = None
            \<and> (ev_status x = Driving \<and> 0 < ev_duration x \<and> ev_duration x \<le> dt
               \<or> ev_status x = Sleeper_berth \<and> ev_duration x = 10)"
      using es(4) e(2) shape le by fastforce
    ultimately show ?thesis by blast
  next
    case False
    then have stop: "add_driving_loop (ls', dl', t', dt', rc') = (ls', dl', t', dt', rc')"
      by (simp add: add_driving_loop.simps[of ls' dl' t' dt' rc'])
    have drive: "ev_status e = Driving"
      using e(3) False "1.prems" by (auto split: if_splits)
    have "extends_by ls dl (st_log_sheets (add_driving_loop (ls, dl, t, dt, rc)))
            (st_day_log (add_driving_loop (ls, dl, t, dt, rc))) [e]"
      unfolding loop stop using e(1) by (simp add: st_log_sheets_def st_day_log_def)
    moreover have "\<forall>x\<in>set [e]. ev_activity x = None
            \<and> (ev_status x = Driving \<and> 0 < ev_duration x \<and> ev_duration x \<le> dt
               \<or> ev_status x = Sleeper_berth \<and> ev_duration x = 10)"
      using e(2) shape by simp
    ultimately show ?thesis using drive by (intro exI[of _ "[e]"]) simp
  qed
qed

lemma drive_segment_idle: "h \<le> 0 \<Longrightarrow> drive_segment h s = s"
  by (cases s) (simp add: drive_segment_def add_driving_def add_driving_loop.simps)

lemma drive_segment_driven:
  assumes "0 < h"
  shows "\<exists>es. trip_events (drive_segment h s) = trip_events s @ es
      \<and> es \<noteq> [] \<and> ev_status (last es) = Driving
      \<and> (\<forall>e\<in>set es. ev_activity e = None
            \<and> (ev_status e = Driving \<and> 0 < ev_duration e \<and> ev_duration e \<le> h
               \<or> ev_status e = Sleeper_berth \<and> ev_duration e = 10))"
proof -
  obtain ls t dl rc where s: "s = (ls, t, dl, rc)" by (cases s)
  obtain es where es:
      "extends_by ls dl (st_log_sheets (add_driving_loop (ls, dl, t, h, rc)))
            (st_day_log (add_driving_loop (ls, dl, t, h, rc))) es"
      "es \<noteq> []" "ev_status (last es) = Driving"
      "\<forall>e\<in>set es. ev_activity e = None
            \<and> (ev_status e = Driving \<and> 0 < ev_duration e \<and> ev_duration e \<le> h
               \<or> ev_status e = Sleeper_berth \<and> ev_duration e = 10)"
    using loop_events[OF assms, of ls dl t rc] by blast
  have "trip_events (drive_segment h s) = trip_events s @ es"
    using es(1)
    by (auto simp: s drive_segment_def add_driving_def trip_events_def extends_by_def
        st_log_sheets_def st_day_log_def split: prod.splits)
  with es(2,3,4) show ?thesis by blast
qed

lemma generate_structure:
  "generate_from_route now rd cu ls0 =
     (let t0 = replace_hour_minute_second now 8 0;
          a = add_event ls0 (init_day_log (date_of t0)) On_duty t0 pickup_dropoff_time
                (Some ''Loading'');
          s = drive_segment (time_per_segment rd)
                (((\<lambda>x. fueling_stop (drive_segment (time_per_segment rd) x)) ^^ fuel_stops rd)
                   (drive_segment (duration (fst (legs rd)))
                      (fst a, fst (snd a), snd (snd a), max_cycle_hours - cu)));
          e = add_event (fst s) (fst (snd (snd s))) On_duty (fst (snd s)) pickup_dropoff_time
                (Some ''Unloading'')
      in finalize_day (fst e) (snd (snd e)))"
  by (simp only: generate_as_states segments_structure Let_def pickup_dropoff_time_def
      max_cycle_hours_def finalize_day_def)

lemma time_per_segment_quotient:
  "time_per_segment rd = duration (snd (legs rd)) / of_nat (fuel_stops rd + 1)"
  by (simp add: time_per_segment_def Let_def)

lemma last_drive_before_unloading:
  assumes "0 < duration (snd (legs rd))"
  shows "ev_status (last (butlast (all_events (generate_from_route now rd cu [])))) = Driving"
proof -
  define t0 where "t0 = replace_hour_minute_second now 8 0"
  define a where "a = add_event [] (init_day_log (date_of t0)) On_duty t0 pickup_dropoff_time
                (Some ''Loading'')"
  define s2 where "s2 = ((\<lambda>x. fueling_stop (drive_segment (time_per_segment rd) x)) ^^ fuel_stops rd)
                   (drive_segment (duration (fst (legs rd)))
                      (fst a, fst (snd a), snd (snd a), max_cycle_hours - cu))"
  define s3 where "s3 = drive_segment (time_per_segment rd) s2"
  define e where "e = add_event (fst s3) (fst (snd (snd s3))) On_duty (fst (snd s3)) 1
                (Some ''Unloading'')"
  have gen: "generate_from_route now rd cu [] = fst e @ [snd (snd e)]"
    by (simp add: generate_structure Let_def e_def s3_def s2_def a_def t0_def finalize_day_def
        pickup_dropoff_time_def)
  have "0 < time_per_segment rd"
    using assms by (simp add: time_per_segment_quotient)
  from drive_segment_driven[OF this, of s2] obtain es where es:
    "trip_events s3 = trip_events s2 @ es" "es \<noteq> []" "ev_status (last es) = Driving"
    unfolding s3_def by blast
  obtain unloading where u: "all_events (fst e @ [snd (snd e)]) = trip_events s3 @ [unloading]"
    using unloading_events[of s3] unfolding e_def by blast
  have "butlast (all_events (generate_from_route now rd cu [])) = trip_events s2 @ es"
    by (simp only: gen u es(1) butlast_snoc)
  then show ?thesis using es(2,3) by simp
qed

section \<open>Verified claims\<close>

text \<open>
  C1. Every day log returned by the generation, started with no earlier log sheets, has
  between 0 and 11 hours of driving, and its driving and on-duty hours together are at
  most 13 plus half an hour per fuel stop of the route: 11 hours of driving, one hour each
  for loading and unloading, and the fuel stops. So the sum is at most 14 whenever the
  total distance is below 3000 miles. No condition on the leg durations or on the cycle
  hours used is needed.
\<close>

theorem daily_limits:
  "\<forall>dl \<in> set (generate_from_route now rd cycle_used []).
      0 \<le> driving (totals dl) \<and> driving (totals dl) \<le> 11
    \<and> driving (totals dl) + on_duty (totals dl) \<le> 13 + of_nat (fuel_stops rd) / 2
    \<and> (total_distance rd < 3000 \<longrightarrow> driving (totals dl) + on_duty (totals dl) \<le> 14)"
proof
  fix x assume x: "x \<in> set (generate_from_route now rd cycle_used [])"
  obtain ls dl where g: "generate_from_route now rd cycle_used [] = ls @ [dl]"
    and wb: "within_budget ls dl (2 + of_nat (fuel_stops rd) / 2)"
    using within_budget_generate by blast
  have all: "list_all (\<lambda>x. 0 \<le> driving (totals x) \<and> driving (totals x) \<le> 11
        \<and> 0 \<le> on_duty (totals x)) (ls @ [dl])"
    and sum: "on_duty_sum (ls @ [dl]) \<le> 2 + of_nat (fuel_stops rd) / 2"
    using wb by (simp_all add: within_budget_def)
  have xin: "x \<in> set (ls @ [dl])" using x g by simp
  have d: "0 \<le> driving (totals x)" "driving (totals x) \<le> 11"
    using all xin unfolding list_all_iff by blast+
  have "list_all (\<lambda>x. 0 \<le> on_duty (totals x)) (ls @ [dl])"
    using all unfolding list_all_iff by blast
  from member_le_on_duty_sum[OF this xin] sum
  have o: "on_duty (totals x) \<le> 2 + of_nat (fuel_stops rd) / 2" by simp
  have small: "fuel_stops rd \<le> 2" if "total_distance rd < 3000"
  proof -
    have "py_int (total_distance rd / 1000) \<le> 2"
      using that unfolding py_int_def by (auto simp: floor_le_iff ceiling_le_iff)
    then show ?thesis by (simp add: fuel_stops_def fuel_interval_def)
  qed
  have "driving (totals x) + on_duty (totals x) \<le> 14" if "total_distance rd < 3000"
  proof -
    have "(of_nat (fuel_stops rd) :: rat) \<le> 2" using small[OF that] by simp
    then show ?thesis using d o by simp
  qed
  with d o show "0 \<le> driving (totals x) \<and> driving (totals x) \<le> 11
    \<and> driving (totals x) + on_duty (totals x) \<le> 13 + of_nat (fuel_stops rd) / 2
    \<and> (total_distance rd < 3000 \<longrightarrow> driving (totals x) + on_duty (totals x) \<le> 14)"
    by simp
qed

theorem daily_limits_witness:
  "hd (generate_from_route 0
     \<lparr>legs = (\<lparr>leg_from = ''A'', leg_to = ''B'', distance = 120, duration = 2, geometry = []\<rparr>,
              \<lparr>leg_from = ''B'', leg_to = ''C'', distance = 380, duration = 3, geometry = []\<rparr>),
      total_distance = 500, total_duration = 5\<rparr> 0 [])
     \<in> set (generate_from_route 0
     \<lparr>legs = (\<lparr>leg_from = ''A'', leg_to = ''B'', distance = 120, duration = 2, geometry = []\<rparr>,
              \<lparr>leg_from = ''B'', leg_to = ''C'', distance = 380, duration = 3, geometry = []\<rparr>),
      total_distance = 500, total_duration = 5\<rparr> 0 [])
   \<and> driving (totals (hd (generate_from_route 0
     \<lparr>legs = (\<lparr>leg_from = ''A'', leg_to = ''B'', distance = 120, duration = 2, geometry = []\<rparr>,
              \<lparr>leg_from = ''B'', leg_to = ''C'', distance = 380, duration = 3, geometry = []\<rparr>),
      total_distance = 500, total_duration = 5\<rparr> 0 [])))
       + on_duty (totals (hd (generate_from_route 0
     \<lparr>legs = (\<lparr>leg_from = ''A'', leg_to = ''B'', distance = 120, duration = 2, geometry = []\<rparr>,
              \<lparr>leg_from = ''B'', leg_to = ''C'', distance = 380, duration = 3, geometry = []\<rparr>),
      total_distance = 500, total_duration = 5\<rparr> 0 []))) \<le> 14"
proof -
  have "length (generate_from_route 0
     \<lparr>legs = (\<lparr>leg_from = ''A'', leg_to = ''B'', distance = 120, duration = 2, geometry = []\<rparr>,
              \<lparr>leg_from = ''B'', leg_to = ''C'', distance = 380, duration = 3, geometry = []\<rparr>),
      total_distance = 500, total_duration = 5\<rparr> 0 []) = 1"
    by code_simp
  then have m: "hd (generate_from_route 0
     \<lparr>legs = (\<lparr>leg_from = ''A'', leg_to = ''B'', distance = 120, duration = 2, geometry = []\<rparr>,
              \<lparr>leg_from = ''B'', leg_to = ''C'', distance = 380, duration = 3, geometry = []\<rparr>),
      total_distance = 500, total_duration = 5\<rparr> 0 [])
     \<in> set (generate_from_route 0
     \<lparr>legs = (\<lparr>leg_from = ''A'', leg_to = ''B'', distance = 120, duration = 2, geometry = []\<rparr>,
              \<lparr>leg_from = ''B'', leg_to = ''C'', distance = 380, duration = 3, geometry = []\<rparr>),
      total_distance = 500, total_duration = 5\<rparr> 0 [])"
    by (cases "generate_from_route 0
     \<lparr>legs = (\<lparr>leg_from = ''A'', leg_to = ''B'', distance = 120, duration = 2, geometry = []\<rparr>,
              \<lparr>leg_from = ''B'', leg_to = ''C'', distance = 380, duration = 3, geometry = []\<rparr>),
      total_distance = 500, total_duration = 5\<rparr> 0 []") simp_all
  from daily_limits[of 0 "\<lparr>legs = (\<lparr>leg_from = ''A'', leg_to = ''B'', distance = 120, duration = 2, geometry = []\<rparr>,
              \<lparr>leg_from = ''B'', leg_to = ''C'', distance = 380, duration = 3, geometry = []\<rparr>),
      total_distance = 500, total_duration = 5\<rparr>" 0] m
  show ?thesis by auto
qed

text \<open>
  The bound of 14 hours on driving plus on-duty time fails when more fuel stops fall on one
  day: with 4000 miles, legs of 6 and 5 hours and no cycle hours used, the only day log
  has 11 hours of driving and 4 hours on duty (loading, four fuel stops, unloading).
\<close>

theorem daily_limits_counterexample:
  "map totals (generate_from_route 0
     \<lparr>legs = (\<lparr>leg_from = ''A'', leg_to = ''B'', distance = 300, duration = 6, geometry = []\<rparr>,
              \<lparr>leg_from = ''B'', leg_to = ''C'', distance = 3700, duration = 5, geometry = []\<rparr>),
      total_distance = 4000, total_duration = 11\<rparr> 0 [])
     = [\<lparr>driving = 11, on_duty = 4, off_duty = 0, sleeper = 0\<rparr>]
   \<and> \<not> (11::rat) + 4 \<le> 14"
  by code_simp

text \<open>
  C3. On a crossing, \<^verbatim>\<open>_add_event\<close> re-anchors with \<^verbatim>\<open>end_time.replace(hour=8, minute=0)\<close>,
  which keeps the seconds of the old end time. A Driving event of 7.01 hours asked for at
  18:00 of day 1 ends at 01:00:36 of day 2; it is booked on the log of day 2 from the clock
  reading 08:00:36, with recorded start 08:00 and recorded end 15:01, whereas 08:00 plus
  7.01 hours is 15:00:36, recorded as 15:00. The call is made in the run with a first leg
  of 18.01 hours and a second leg of 1 hour: 11 hours are driven on day 0, the rest of day
  1 ends at 18:00, and the last log sheet records the ends 15:01, 16:01 and 17:01.
\<close>

theorem add_event_reanchor_keeps_seconds:
  "date_of 42 < date_of (42 + 701 / 100)
   \<and> fst (snd (add_event [] (init_day_log 1) Driving 42 (701 / 100) None)) - 701 / 100
       = 48 + 8 + 1 / 100
   \<and> map ev_start (events (snd (snd (add_event [] (init_day_log 1) Driving 42 (701 / 100) None))))
       = [''08:00'']
   \<and> map ev_end (events (snd (snd (add_event [] (init_day_log 1) Driving 42 (701 / 100) None))))
       = [''15:01'']
   \<and> strftime_HM (48 + 8 + 701 / 100) = ''15:00''
   \<and> map ev_end (events (last (generate_from_route 0
         \<lparr>legs = (\<lparr>leg_from = ''A'', leg_to = ''B'', distance = 450, duration = 1801 / 100,
                    geometry = []\<rparr>,
                  \<lparr>leg_from = ''B'', leg_to = ''C'', distance = 50, duration = 1,
                    geometry = []\<rparr>),
          total_distance = 500, total_duration = 1901 / 100\<rparr> 0 [])))
       = [''15:01'', ''16:01'', ''17:01'']"
  by code_simp



text \<open>
  C5. For a route with a non-negative total distance, the number of fuel stops is the floor
  of the total distance over 1000, and the segment time is the second leg's duration
  divided by that number plus one. The generation is: the loading event, the first leg
  driven, then as many times as there are fuel stops a segment of the segment time driven
  and a fuel stop booked, then one last segment of the segment time driven with no fuel
  stop after it, the unloading event, and the last day closed. Driving a segment of no
  positive time changes nothing; driving one of positive time adds Driving events, each
  of positive duration no longer than the segment time, and 10-hour rests, and ends with
  a Driving event. A fuel stop adds one event, on duty for half an hour and labelled
  Fueling. The log sheets of a new generator hold exactly as many events labelled Fueling
  as there are fuel stops; the last event is the unloading, and when the second leg has a
  positive duration the event before it is a Driving event.
\<close>

theorem fuel_stops_between_segments:
  assumes "0 \<le> total_distance rd"
  shows "int (fuel_stops rd) = \<lfloor>total_distance rd / 1000\<rfloor>
     \<and> time_per_segment rd = duration (snd (legs rd)) / of_nat (fuel_stops rd + 1)
     \<and> generate_from_route now rd cycle_used [] =
         (let t0 = replace_hour_minute_second now 8 0;
              a = add_event [] (init_day_log (date_of t0)) On_duty t0 pickup_dropoff_time
                    (Some ''Loading'');
              s = drive_segment (time_per_segment rd)
                    (((\<lambda>x. fueling_stop (drive_segment (time_per_segment rd) x))
                        ^^ fuel_stops rd)
                       (drive_segment (duration (fst (legs rd)))
                          (fst a, fst (snd a), snd (snd a), max_cycle_hours - cycle_used)));
              e = add_event (fst s) (fst (snd (snd s))) On_duty (fst (snd s))
                    pickup_dropoff_time (Some ''Unloading'')
          in finalize_day (fst e) (snd (snd e)))
     \<and> (h \<le> 0 \<longrightarrow> drive_segment h s = s)
     \<and> (0 < h \<longrightarrow>
          (\<exists>es. trip_events (drive_segment h s) = trip_events s @ es
              \<and> es \<noteq> [] \<and> ev_status (last es) = Driving
              \<and> (\<forall>e\<in>set es. ev_activity e = None
                    \<and> (ev_status e = Driving \<and> 0 < ev_duration e \<and> ev_duration e \<le> h
                       \<or> ev_status e = Sleeper_berth \<and> ev_duration e = 10))))
     \<and> (\<exists>e. trip_events (fueling_stop s) = trip_events s @ [e]
            \<and> ev_status e = On_duty \<and> ev_duration e = 1 / 2
            \<and> ev_activity e = Some ''Fueling'')
     \<and> length (filter (\<lambda>e. ev_activity e = Some ''Fueling'')
                 (all_events (generate_from_route now rd cycle_used [])))
         = fuel_stops rd
     \<and> (\<forall>e\<in>set (all_events (generate_from_route now rd cycle_used [])).
           ev_activity e = Some ''Fueling'' \<longrightarrow> ev_status e = On_duty \<and> ev_duration e = 1 / 2)
     \<and> ev_activity (last (all_events (generate_from_route now rd cycle_used [])))
         = Some ''Unloading''
     \<and> (0 < duration (snd (legs rd)) \<longrightarrow>
          ev_status (last (butlast (all_events (generate_from_route now rd cycle_used []))))
            = Driving)"
proof -
  obtain loading es1 es2 unloading where g:
     "all_events (generate_from_route now rd cycle_used []) = loading # es1 @ es2 @ [unloading]"
     "ev_activity loading = Some ''Loading''"
     "\<forall>e\<in>set es1. ev_activity e = None"
     "length (filter (\<lambda>e. ev_activity e = Some ''Fueling'') es2) = fuel_stops rd"
     "\<forall>e\<in>set es2. ev_activity e = Some ''Fueling''
            \<longrightarrow> ev_status e = On_duty \<and> ev_duration e = 1 / 2"
     "ev_activity unloading = Some ''Unloading''"
    using generate_events[of now rd cycle_used] by blast
  have none: "filter (\<lambda>e. ev_activity e = Some ''Fueling'') es1 = []"
    using g(3) by (auto simp: filter_empty_conv)
  have cnt: "length (filter (\<lambda>e. ev_activity e = Some ''Fueling'')
                 (all_events (generate_from_route now rd cycle_used []))) = fuel_stops rd"
    unfolding g(1) using g(2,4,6) none by simp
  have each: "\<forall>e\<in>set (all_events (generate_from_route now rd cycle_used [])).
           ev_activity e = Some ''Fueling'' \<longrightarrow> ev_status e = On_duty \<and> ev_duration e = 1 / 2"
    unfolding g(1) using g(2,3,5,6) by auto
  have lst: "ev_activity (last (all_events (generate_from_route now rd cycle_used [])))
         = Some ''Unloading''"
    unfolding g(1) using g(6) by simp
  have fuel: "\<exists>e. trip_events (fueling_stop s) = trip_events s @ [e]
            \<and> ev_status e = On_duty \<and> ev_duration e = 1 / 2
            \<and> ev_activity e = Some ''Fueling''"
    using fueling_stop_events[of s] by blast
  have idle: "h \<le> 0 \<longrightarrow> drive_segment h s = s"
    by (simp add: drive_segment_idle)
  have driven: "0 < h \<longrightarrow>
          (\<exists>es. trip_events (drive_segment h s) = trip_events s @ es
              \<and> es \<noteq> [] \<and> ev_status (last es) = Driving
              \<and> (\<forall>e\<in>set es. ev_activity e = None
                    \<and> (ev_status e = Driving \<and> 0 < ev_duration e \<and> ev_duration e \<le> h
                       \<or> ev_status e = Sleeper_berth \<and> ev_duration e = 10)))"
    using drive_segment_driven[of h s] by blast
  have before: "0 < duration (snd (legs rd)) \<longrightarrow>
          ev_status (last (butlast (all_events (generate_from_route now rd cycle_used []))))
            = Driving"
    using last_drive_before_unloading[of rd now cycle_used] by blast
  note fl = fuel_stops_floor[OF assms]
  note q = time_per_segment_quotient[of rd]
  note st = generate_structure[of now rd cycle_used "[]"]
  show ?thesis
    by (intro conjI; fact)
qed

theorem fuel_stops_between_segments_witness:
  "(0::rat) \<le> total_distance
     \<lparr>legs = (\<lparr>leg_from = ''A'', leg_to = ''B'', distance = 500, duration = 9, geometry = []\<rparr>,
              \<lparr>leg_from = ''B'', leg_to = ''C'', distance = 2000, duration = 36, geometry = []\<rparr>),
      total_distance = 2500, total_duration = 45\<rparr>
   \<and> length (filter (\<lambda>e. ev_activity e = Some ''Fueling'')
        (all_events (generate_from_route 0
     \<lparr>legs = (\<lparr>leg_from = ''A'', leg_to = ''B'', distance = 500, duration = 9, geometry = []\<rparr>,
              \<lparr>leg_from = ''B'', leg_to = ''C'', distance = 2000, duration = 36, geometry = []\<rparr>),
      total_distance = 2500, total_duration = 45\<rparr> 0 []))) = 2
   \<and> ev_status (last (butlast (all_events (generate_from_route 0
     \<lparr>legs = (\<lparr>leg_from = ''A'', leg_to = ''B'', distance = 500, duration = 9, geometry = []\<rparr>,
              \<lparr>leg_from = ''B'', leg_to = ''C'', distance = 2000, duration = 36, geometry = []\<rparr>),
      total_distance = 2500, total_duration = 45\<rparr> 0 [])))) = Driving"
proof -
  have fs: "fuel_stops
     \<lparr>legs = (\<lparr>leg_from = ''A'', leg_to = ''B'', distance = 500, duration = 9, geometry = []\<rparr>,
              \<lparr>leg_from = ''B'', leg_to = ''C'', distance = 2000, duration = 36, geometry = []\<rparr>),
      total_distance = 2500, total_duration = 45\<rparr> = 2"
    by code_simp
  have h: "(0::rat) \<le> total_distance
     \<lparr>legs = (\<lparr>leg_from = ''A'', leg_to = ''B'', distance = 500, duration = 9, geometry = []\<rparr>,
              \<lparr>leg_from = ''B'', leg_to = ''C'', distance = 2000, duration = 36, geometry = []\<rparr>),
      total_distance = 2500, total_duration = 45\<rparr>"
    by simp
  note T = fuel_stops_between_segments[OF h, of 0 0 0 "([], 0, init_day_log 0, 0)"]
  have c: "length (filter (\<lambda>e. ev_activity e = Some ''Fueling'')
        (all_events (generate_from_route 0
     \<lparr>legs = (\<lparr>leg_from = ''A'', leg_to = ''B'', distance = 500, duration = 9, geometry = []\<rparr>,
              \<lparr>leg_from = ''B'', leg_to = ''C'', distance = 2000, duration = 36, geometry = []\<rparr>),
      total_distance = 2500, total_duration = 45\<rparr> 0 []))) = fuel_stops
     \<lparr>legs = (\<lparr>leg_from = ''A'', leg_to = ''B'', distance = 500, duration = 9, geometry = []\<rparr>,
              \<lparr>leg_from = ''B'', leg_to = ''C'', distance = 2000, duration = 36, geometry = []\<rparr>),
      total_distance = 2500, total_duration = 45\<rparr>"
    using T by (elim conjE)
  have d: "0 < duration (snd (legs
     \<lparr>legs = (\<lparr>leg_from = ''A'', leg_to = ''B'', distance = 500, duration = 9, geometry = []\<rparr>,
              \<lparr>leg_from = ''B'', leg_to = ''C'', distance = 2000, duration = 36, geometry = []\<rparr>),
      total_distance = 2500, total_duration = 45\<rparr>)) \<longrightarrow>
     ev_status (last (butlast (all_events (generate_from_route 0
     \<lparr>legs = (\<lparr>leg_from = ''A'', leg_to = ''B'', distance = 500, duration = 9, geometry = []\<rparr>,
              \<lparr>leg_from = ''B'', leg_to = ''C'', distance = 2000, duration = 36, geometry = []\<rparr>),
      total_distance = 2500, total_duration = 45\<rparr> 0 [])))) = Driving"
    using T by (elim conjE)
  from c d fs h show ?thesis by simp
qed

text \<open>
  C6. With a total distance of 500 miles, a first leg of 2 hours, a second leg of 3 hours
  and no cycle hours used, a new generator produces exactly one log sheet, for today,
  with the events Loading (on duty, 08:00 to 09:00), Driving 2 hours, Driving 3 hours and
  Unloading (on duty, 14:00 to 15:00), and the totals driving 5, on duty 2, off duty 0,
  sleeper 0, whatever the current date and time.
\<close>

theorem scenario_500_miles:
  assumes "total_distance rd = 500"
    and "duration (fst (legs rd)) = 2" and "duration (snd (legs rd)) = 3"
  shows "\<exists>dl. generate_from_route now rd 0 [] = [dl]
     \<and> date dl = date_of now
     \<and> events dl =
         [\<lparr>ev_status = On_duty, ev_start = ''08:00'', ev_end = ''09:00'', ev_duration = 1,
            ev_activity = Some ''Loading''\<rparr>,
          \<lparr>ev_status = Driving, ev_start = ''09:00'', ev_end = ''11:00'', ev_duration = 2,
            ev_activity = None\<rparr>,
          \<lparr>ev_status = Driving, ev_start = ''11:00'', ev_end = ''14:00'', ev_duration = 3,
            ev_activity = None\<rparr>,
          \<lparr>ev_status = On_duty, ev_start = ''14:00'', ev_end = ''15:00'', ev_duration = 1,
            ev_activity = Some ''Unloading''\<rparr>]
     \<and> totals dl = \<lparr>driving = 5, on_duty = 2, off_duty = 0, sleeper = 0\<rparr>"
proof -
  define k where "k = date_of now"
  have fs: "fuel_stops rd = 0"
    by (simp add: fuel_stops_def py_int_def fuel_interval_def assms floor_rat_numeral)
  then have tps: "time_per_segment rd = 3"
    by (simp add: time_per_segment_def assms)
  have start: "replace_hour_minute_second now 8 0 = 24 * of_int k + 8"
    by (simp add: day_start k_def)
  have d0: "date_of (24 * of_int k + 8) = k"
    by (rule date_of_day_plus) simp_all
  obtain dl1 where e1: "add_event [] (init_day_log k) On_duty (24 * of_int k + 8) 1
        (Some ''Loading'') = ([], 24 * of_int k + 9, dl1)"
    and dl1: "dl1 = (init_day_log k)\<lparr>grid := paint (grid (init_day_log k)) (slot_index 8)
                       (slot_index 9) ON,
                events := [make_event On_duty 8 9 1 (Some ''Loading'')],
                totals := \<lparr>driving = 0, on_duty = 1, off_duty = 0, sleeper = 0\<rparr>\<rparr>"
    by (simp add: add_event_in_day init_day_log_def)
  obtain dl2 where e2: "add_driving [] dl1 (24 * of_int k + 9) 2 70 = ([], 24 * of_int k + 11, dl2, 68)"
    and dl2: "dl2 = dl1\<lparr>grid := paint (grid dl1) (slot_index 9) (slot_index 11) D,
                events := events dl1 @ [make_event Driving 9 11 2 None],
                totals := \<lparr>driving = 2, on_duty = 1, off_duty = 0, sleeper = 0\<rparr>\<rparr>"
    by (simp add: add_driving_single available_hours_def dl1 max_drive_hours_def
        max_on_duty_hours_def)
  obtain dl3 where e3: "add_driving [] dl2 (24 * of_int k + 11) 3 68 = ([], 24 * of_int k + 14, dl3, 65)"
    and dl3: "dl3 = dl2\<lparr>grid := paint (grid dl2) (slot_index 11) (slot_index 14) D,
                events := events dl2 @ [make_event Driving 11 14 3 None],
                totals := \<lparr>driving = 5, on_duty = 1, off_duty = 0, sleeper = 0\<rparr>\<rparr>"
    by (simp add: add_driving_single available_hours_def dl2 max_drive_hours_def
        max_on_duty_hours_def)
  obtain dl4 where e4: "add_event [] dl3 On_duty (24 * of_int k + 14) 1
        (Some ''Unloading'') = ([], 24 * of_int k + 15, dl4)"
    and dl4: "dl4 = dl3\<lparr>grid := paint (grid dl3) (slot_index 14) (slot_index 15) ON,
                events := events dl3 @ [make_event On_duty 14 15 1 (Some ''Unloading'')],
                totals := \<lparr>driving = 5, on_duty = 2, off_duty = 0, sleeper = 0\<rparr>\<rparr>"
    by (simp add: add_event_in_day dl3)
  have "generate_from_route now rd 0 [] = [dl4]"
    by (simp add: generate_from_route_def Let_def start d0 fs tps assms max_cycle_hours_def
        pickup_dropoff_time_def e1 segment_step_def drive_segment_def e2 e3 e4 finalize_day_def)
  moreover have "date dl4 = date_of now"
    by (simp add: dl4 dl3 dl2 dl1 init_day_log_def k_def)
  moreover have "events dl4 =
         [\<lparr>ev_status = On_duty, ev_start = ''08:00'', ev_end = ''09:00'', ev_duration = 1,
            ev_activity = Some ''Loading''\<rparr>,
          \<lparr>ev_status = Driving, ev_start = ''09:00'', ev_end = ''11:00'', ev_duration = 2,
            ev_activity = None\<rparr>,
          \<lparr>ev_status = Driving, ev_start = ''11:00'', ev_end = ''14:00'', ev_duration = 3,
            ev_activity = None\<rparr>,
          \<lparr>ev_status = On_duty, ev_start = ''14:00'', ev_end = ''15:00'', ev_duration = 1,
            ev_activity = Some ''Unloading''\<rparr>]"
    by (simp add: dl4 dl3 dl2 dl1 init_day_log_def make_event_def strftime_whole_hour)
  moreover have "totals dl4 = \<lparr>driving = 5, on_duty = 2, off_duty = 0, sleeper = 0\<rparr>"
    by (simp add: dl4)
  ultimately show ?thesis by blast
qed

theorem scenario_500_miles_witness:
  "total_distance
     \<lparr>legs = (\<lparr>leg_from = ''A'', leg_to = ''B'', distance = 120, duration = 2, geometry = []\<rparr>,
              \<lparr>leg_from = ''B'', leg_to = ''C'', distance = 380, duration = 3, geometry = []\<rparr>),
      total_distance = 500, total_duration = 5\<rparr> = 500
   \<and> map totals
        (generate_from_route 0
           \<lparr>legs = (\<lparr>leg_from = ''A'', leg_to = ''B'', distance = 120, duration = 2,
                      geometry = []\<rparr>,
                    \<lparr>leg_from = ''B'', leg_to = ''C'', distance = 380, duration = 3,
                      geometry = []\<rparr>),
            total_distance = 500, total_duration = 5\<rparr> 0 [])
       = [\<lparr>driving = 5, on_duty = 2, off_duty = 0, sleeper = 0\<rparr>]"
  using scenario_500_miles[of
     "\<lparr>legs = (\<lparr>leg_from = ''A'', leg_to = ''B'', distance = 120, duration = 2, geometry = []\<rparr>,
              \<lparr>leg_from = ''B'', leg_to = ''C'', distance = 380, duration = 3, geometry = []\<rparr>),
      total_distance = 500, total_duration = 5\<rparr>" 0]
  by auto

text \<open>
  C7. With 70 cycle hours used and a first leg of positive duration, the remaining cycle
  starts at 0. After the loading event the first pass of the driving loop finds no
  available hours, closes the first day log, which holds the loading event only and no
  driving, and books a 10-hour sleeper-berth rest on the next day log. The first day log
  is the first log sheet of the run, and the events of the run begin with the loading
  followed by that rest.
\<close>

theorem rest_before_driving_when_cycle_used_up:
  assumes "0 < duration (fst (legs rd))"
  shows "\<exists>day1 sleeper es rest.
       max_cycle_hours - 70 = 0
     \<and> add_event [] (init_day_log (date_of (replace_hour_minute_second now 8 0))) On_duty
           (replace_hour_minute_second now 8 0) pickup_dropoff_time (Some ''Loading'')
         = ([], replace_hour_minute_second now 8 0 + 1, day1)
     \<and> available_hours day1 (max_cycle_hours - 70) (duration (fst (legs rd))) \<le> 0
     \<and> st_log_sheets (add_driving_iter ([], day1, replace_hour_minute_second now 8 0 + 1,
           duration (fst (legs rd)), max_cycle_hours - 70)) = [day1]
     \<and> events (st_day_log (add_driving_iter ([], day1, replace_hour_minute_second now 8 0 + 1,
           duration (fst (legs rd)), max_cycle_hours - 70))) = [sleeper]
     \<and> ev_status sleeper = Sleeper_berth \<and> ev_duration sleeper = 10
     \<and> generate_from_route now rd 70 [] = day1 # rest
     \<and> date day1 = date_of now
     \<and> map ev_activity (events day1) = [Some ''Loading'']
     \<and> driving (totals day1) = 0
     \<and> all_events (generate_from_route now rd 70 []) = events day1 @ sleeper # es"
proof -
  define k where "k = date_of now"
  define leg1 where "leg1 = duration (fst (legs rd))"
  have t0: "replace_hour_minute_second now 8 0 = 24 * of_int k + 8"
    by (simp add: day_start k_def)
  have d0: "date_of (24 * of_int k + 8) = k"
    by (rule date_of_day_plus) simp_all
  have t1: "replace_hour_minute_second now 8 0 + 1 = 24 * of_int k + 9"
    by (simp add: t0)
  have mc: "max_cycle_hours - 70 = 0" by (simp add: max_cycle_hours_def)
  define day1 where "day1 = (init_day_log k)\<lparr>grid := paint (grid (init_day_log k)) (slot_index 8)
                       (slot_index 9) ON,
                events := [make_event On_duty 8 9 1 (Some ''Loading'')],
                totals := \<lparr>driving = 0, on_duty = 1, off_duty = 0, sleeper = 0\<rparr>\<rparr>"
  have e1: "add_event [] (init_day_log k) On_duty (24 * of_int k + 8) 1
        (Some ''Loading'') = ([], 24 * of_int k + 9, day1)"
    by (simp add: add_event_in_day init_day_log_def day1_def)
  have av: "available_hours day1 0 leg1 \<le> 0"
    using available_le(3)[of day1 0 leg1] .
  define s1 where "s1 = add_driving_iter ([], day1, 24 * of_int k + 9, leg1, 0)"
  define sleeper where "sleeper = make_event Sleeper_berth
      (replace_hour_minute (24 * of_int k + 9) 8 0 + 24)
      (replace_hour_minute (24 * of_int k + 9) 8 0 + 24 + 10) 10 None"
  have s1: "st_log_sheets s1 = [day1]" "events (st_day_log s1) = [sleeper]"
       "st_drive_time s1 = leg1"
    unfolding s1_def iter_rest_eq[OF av]
    by (simp_all add: st_log_sheets_def st_day_log_def st_drive_time_def sleeper_def)
  obtain ls' dl' t' rc' where s1_eq: "s1 = (ls', dl', t', leg1, rc')"
    using s1(3) by (cases s1) (simp add: st_drive_time_def)
  have ls': "ls' = [day1]" and dl': "events dl' = [sleeper]"
    using s1(1,2) by (simp_all add: s1_eq st_log_sheets_def st_day_log_def)
  have unroll: "add_driving [] day1 (24 * of_int k + 9) leg1 0 = add_driving ls' dl' t' leg1 rc'"
    using add_driving_unroll[of leg1 "[]" day1 "24 * of_int k + 9" 0] assms
    by (simp add: leg1_def[symmetric] s1_def[symmetric] s1_eq)
  define s2 where "s2 = drive_segment leg1 (ls', t', dl', rc')"
  obtain es1 ys1 where d: "trip_events s2 = trip_events (ls', t', dl', rc') @ es1"
      "fst s2 = ls' @ ys1"
    using drive_segment_events[of leg1 "(ls', t', dl', rc')"] unfolding s2_def by auto
  define s3 where "s3 = fold (segment_step (fuel_stops rd) (time_per_segment rd))
                 [0 ..< fuel_stops rd + 1] s2"
  obtain es2 ys2 where f: "trip_events s3 = trip_events s2 @ es2" "fst s3 = fst s2 @ ys2"
    using segments_events[of "fuel_stops rd" "time_per_segment rd" "[0 ..< fuel_stops rd + 1]" s2]
    unfolding s3_def by blast
  define e where "e = add_event (fst s3) (fst (snd (snd s3))) On_duty (fst (snd s3)) 1
                (Some ''Unloading'')"
  obtain unloading ys3 where u: "all_events (fst e @ [snd (snd e)]) = trip_events s3 @ [unloading]"
      "fst e = fst s3 @ ys3"
    using unloading_events[of s3] unfolding e_def by blast
  have gen: "generate_from_route now rd 70 [] = fst e @ [snd (snd e)]"
    by (simp add: generate_as_states Let_def t0 d0 e1 e_def s3_def s2_def drive_segment_def
        unroll leg1_def[symmetric])
  have "generate_from_route now rd 70 [] = day1 # (ys1 @ ys2 @ ys3 @ [snd (snd e)])"
    by (simp add: gen u(2) f(2) d(2) ls')
  have "all_events (generate_from_route now rd 70 [])
        = events day1 @ sleeper # (es1 @ es2 @ [unloading])"
  proof -
    have "trip_events (ls', t', dl', rc') = events day1 @ [sleeper]"
      by (simp add: trip_events_def all_events_def ls' dl')
    then have "all_events (fst e @ [snd (snd e)])
        = (events day1 @ [sleeper]) @ es1 @ es2 @ [unloading]"
      by (simp only: u(1) f(1) d(1) append_assoc)
    then show ?thesis by (simp only: gen) simp
  qed
  have "st_log_sheets (add_driving_iter ([], day1, replace_hour_minute_second now 8 0 + 1,
           duration (fst (legs rd)), max_cycle_hours - 70)) = [day1]"
     "events (st_day_log (add_driving_iter ([], day1, replace_hour_minute_second now 8 0 + 1,
           duration (fst (legs rd)), max_cycle_hours - 70))) = [sleeper]"
    by (simp_all only: t1 mc s1(1,2)[unfolded s1_def leg1_def])
  have "add_event [] (init_day_log (date_of (replace_hour_minute_second now 8 0))) On_duty
           (replace_hour_minute_second now 8 0) pickup_dropoff_time (Some ''Loading'')
         = ([], replace_hour_minute_second now 8 0 + 1, day1)"
    by (simp only: t1 pickup_dropoff_time_def) (simp only: t0 d0 e1)
  have "available_hours day1 (max_cycle_hours - 70) (duration (fst (legs rd))) \<le> 0"
    using av by (simp only: mc leg1_def)
  have "date day1 = date_of now" "map ev_activity (events day1) = [Some ''Loading'']"
      "driving (totals day1) = 0"
    by (simp_all add: day1_def init_day_log_def k_def make_event_def)
  have "ev_status sleeper = Sleeper_berth" "ev_duration sleeper = 10"
    by (simp_all add: sleeper_def make_event_def)
  show ?thesis
    by (rule exI[of _ day1], rule exI[of _ sleeper], rule exI[of _ "es1 @ es2 @ [unloading]"],
        rule exI[of _ "ys1 @ ys2 @ ys3 @ [snd (snd e)]"], intro conjI; fact)
qed

theorem rest_before_driving_when_cycle_used_up_witness:
  "(0::rat) < duration (fst (legs
     \<lparr>legs = (\<lparr>leg_from = ''A'', leg_to = ''B'', distance = 120, duration = 2, geometry = []\<rparr>,
              \<lparr>leg_from = ''B'', leg_to = ''C'', distance = 380, duration = 3, geometry = []\<rparr>),
      total_distance = 500, total_duration = 5\<rparr>))
   \<and> driving (totals (hd (generate_from_route 0
     \<lparr>legs = (\<lparr>leg_from = ''A'', leg_to = ''B'', distance = 120, duration = 2, geometry = []\<rparr>,
              \<lparr>leg_from = ''B'', leg_to = ''C'', distance = 380, duration = 3, geometry = []\<rparr>),
      total_distance = 500, total_duration = 5\<rparr> 70 []))) = 0"
  using rest_before_driving_when_cycle_used_up[of
     "\<lparr>legs = (\<lparr>leg_from = ''A'', leg_to = ''B'', distance = 120, duration = 2, geometry = []\<rparr>,
              \<lparr>leg_from = ''B'', leg_to = ''C'', distance = 380, duration = 3, geometry = []\<rparr>),
      total_distance = 500, total_duration = 5\<rparr>" 0]
  by auto

text \<open>
  C8. When the request is valid and a geocoding call or one of the two route-leg
  computations returns nothing, \<^verbatim>\<open>calculate_route\<close> raises, \<^verbatim>\<open>generate_log_sheets\<close>
  raises the same error without producing log sheets, and the view answers with a single
  error message (one of the two messages of \<^verbatim>\<open>calculate_route\<close>) and leaves the stored
  trips and log sheets as they were.
\<close>

theorem plan_trip_stops_on_route_failure:
  assumes "serializer request = Inr validated_data"
    and "get_coordinates (current_location validated_data) = None
       \<or> get_coordinates (pickup_location validated_data) = None
       \<or> get_coordinates (dropoff_location validated_data) = None
       \<or> (\<exists>current pickup dropoff.
             get_coordinates (current_location validated_data) = Some current
           \<and> get_coordinates (pickup_location validated_data) = Some pickup
           \<and> get_coordinates (dropoff_location validated_data) = Some dropoff
           \<and> (get_route_leg current pickup = None \<or> get_route_leg pickup dropoff = None))"
  shows "\<exists>msg. calculate_route get_coordinates get_route_leg (init_generator validated_data)
                 = Inl (ValueError msg)
             \<and> generate_log_sheets get_coordinates get_route_leg now
                   (init_generator validated_data) = Inl (ValueError msg)
             \<and> post serializer get_coordinates get_route_leg now db request
                 = (db, Response_400_error msg)
             \<and> (msg = ''Failed to geocode one or more locations''
                  \<or> msg = ''Failed to calculate route'')"
proof -
  have "\<exists>msg. calculate_route get_coordinates get_route_leg (init_generator validated_data)
                 = Inl (ValueError msg)
             \<and> (msg = ''Failed to geocode one or more locations''
                  \<or> msg = ''Failed to calculate route'')"
    using assms(2)
    by (auto simp: calculate_route_def init_generator_def split: option.splits)
  then obtain msg where
    cr: "calculate_route get_coordinates get_route_leg (init_generator validated_data)
           = Inl (ValueError msg)"
    and msg: "msg = ''Failed to geocode one or more locations''
                  \<or> msg = ''Failed to calculate route''"
    by blast
  have "self_route_details (init_generator validated_data) = None"
    by (simp add: init_generator_def)
  then have gen: "generate_log_sheets get_coordinates get_route_leg now
                   (init_generator validated_data) = Inl (ValueError msg)"
    by (simp add: generate_log_sheets_def cr)
  have "post serializer get_coordinates get_route_leg now db request
                 = (db, Response_400_error msg)"
    by (simp add: post_def assms(1) gen)
  with cr gen msg show ?thesis by blast
qed

theorem plan_trip_stops_on_route_failure_witness:
  "post (\<lambda>q. Inr q :: unit + trip_data) (\<lambda>a. None) (\<lambda>a b. None) 0
      \<lparr>trips = [], log_sheet_rows = []\<rparr>
      \<lparr>current_location = ''A'', pickup_location = ''B'', dropoff_location = ''C'',
        current_cycle_used = 0\<rparr>
   = (\<lparr>trips = [], log_sheet_rows = []\<rparr>,
      Response_400_error ''Failed to geocode one or more locations'')"
  using plan_trip_stops_on_route_failure[of "\<lambda>q. Inr q :: unit + trip_data"
      "\<lparr>current_location = ''A'', pickup_location = ''B'', dropoff_location = ''C'',
        current_cycle_used = 0\<rparr>"
      "\<lparr>current_location = ''A'', pickup_location = ''B'', dropoff_location = ''C'',
        current_cycle_used = 0\<rparr>"
      "\<lambda>a. None" "\<lambda>a b. None" 0 "\<lparr>trips = [], log_sheet_rows = []\<rparr>"]
  by (auto simp: calculate_route_def init_generator_def)



text \<open>
  C10. When \<^verbatim>\<open>_add_event\<close> crosses the day boundary, the day log it was given is appended
  to the log sheets unchanged: the event adds no record, no painted slot and no hours to
  it. The new day log starts from an empty log of the end date and carries the whole
  event: its single event record, its painted slots and its full duration in the totals.
\<close>

theorem add_event_crossing_frame:
  assumes "date_of start_time < date_of (start_time + duration_hours)"
  shows "case add_event log_sheets day_log st start_time duration_hours activity of
           (log_sheets', end_time, day_log') \<Rightarrow>
             log_sheets' = log_sheets @ [day_log]
           \<and> totals day_log' =
               add_total \<lparr>driving = 0, on_duty = 0, off_duty = 0, sleeper = 0\<rparr> st duration_hours
           \<and> map ev_duration (events day_log') = [duration_hours]
           \<and> map ev_status (events day_log') = [st]
           \<and> date day_log' = date_of (start_time + duration_hours)
           \<and> grid day_log' =
               paint (replicate 96 OFF)
                 (slot_index (replace_hour_minute (start_time + duration_hours) 8 0))
                 (slot_index (replace_hour_minute (start_time + duration_hours) 8 0
                    + duration_hours))
                 (status_code st)"
  unfolding add_event_cross[OF assms]
  by (simp add: init_day_log_def make_event_def)

theorem add_event_crossing_frame_witness:
  "date_of 23 < date_of (23 + 2)
   \<and> fst (add_event [] (init_day_log 0) Driving 23 2 None) = [init_day_log 0]
   \<and> driving (totals (snd (snd (add_event [] (init_day_log 0) Driving 23 2 None)))) = 2"
proof -
  have h: "date_of 23 < date_of (23 + 2)" by code_simp
  from add_event_crossing_frame[OF h, of "[]" "init_day_log 0" Driving None] h
  show ?thesis by (auto split: prod.splits)
qed

end
